theory Spec2Isabelle
  imports Main "HOL-Library.Sublist" "HOL-Library.Char_ord" "HOL-Library.List_Lexorder"
begin


section \<open>Strings and character classes\<close>

text \<open>
  A Python \<open>str\<close> is modelled as a \<open>string\<close> whose characters stand for the code
  points 0..255, so the theory speaks about names and cell texts in that range. On it
  the classes of Python's \<open>re\<close> module and of \<open>str.strip\<close> are:
  \<^item> \<open>\s\<close> and \<open>str.isspace\<close>: 0x09..0x0D, 0x1C..0x20, 0x85, 0xA0;
  \<^item> \<open>\d\<close>: the ten digits 0x30..0x39;
  \<^item> \<open>\w\<close>: what \<open>str.isalnum\<close> accepts, and the underscore.
\<close>

definition code_point :: "char \<Rightarrow> nat" where
  "code_point c = of_char c"

definition is_space :: "char \<Rightarrow> bool" where
  "is_space c =
     (let n = code_point c
      in (9 \<le> n \<and> n \<le> 13) \<or> (28 \<le> n \<and> n \<le> 32) \<or> n = 133 \<or> n = 160)"

definition is_digit :: "char \<Rightarrow> bool" where
  "is_digit c = (let n = code_point c in 48 \<le> n \<and> n \<le> 57)"

definition is_word :: "char \<Rightarrow> bool" where
  "is_word c =
     (let n = code_point c
      in (48 \<le> n \<and> n \<le> 57) \<or> (65 \<le> n \<and> n \<le> 90) \<or> n = 95 \<or> (97 \<le> n \<and> n \<le> 122)
         \<or> n = 170 \<or> n = 178 \<or> n = 179 \<or> n = 181 \<or> n = 185 \<or> n = 186
         \<or> (188 \<le> n \<and> n \<le> 190) \<or> (192 \<le> n \<and> n \<le> 214)
         \<or> (216 \<le> n \<and> n \<le> 246) \<or> (248 \<le> n \<and> n \<le> 255))"

text \<open>\<open>str.strip()\<close>: whitespace is removed from both ends.\<close>

definition lstrip :: "string \<Rightarrow> string" where
  "lstrip s = dropWhile is_space s"

definition rstrip :: "string \<Rightarrow> string" where
  "rstrip s = rev (dropWhile is_space (rev s))"

definition strip :: "string \<Rightarrow> string" where
  "strip s = rstrip (lstrip s)"

text \<open>\<open>int(text)\<close> on a run of digits, and \<open>str(n)\<close> on an integer.\<close>

definition digit_value :: "char \<Rightarrow> nat" where
  "digit_value c = code_point c - 48"

definition int_of_digits :: "string \<Rightarrow> nat" where
  "int_of_digits ds = foldl (\<lambda>acc c. 10 * acc + digit_value c) 0 ds"

definition digit_char :: "nat \<Rightarrow> char" where
  "digit_char d = ''0123456789'' ! d"

function str_nat :: "nat \<Rightarrow> string" where
  "str_nat n = (if n < 10 then [digit_char n] else str_nat (n div 10) @ [digit_char (n mod 10)])"
  by pat_completeness auto
termination
  by (relation "measure (\<lambda>n. n)") auto

declare str_nat.simps [simp del]

definition str_int :: "int \<Rightarrow> string" where
  "str_int i = (if i < 0 then CHR ''-'' # str_nat (nat (- i)) else str_nat (nat i))"

text \<open>The format \<open>{n:02d}\<close> for a number that is not negative.\<close>

definition pad2 :: "nat \<Rightarrow> string" where
  "pad2 n = (if n < 10 then CHR ''0'' # str_nat n else str_nat n)"

section \<open>Errors\<close>

text \<open>
  The source raises \<open>FileNotFoundError\<close> for a missing path, and \<open>ValueError\<close> at three
  places: no numbered folder, a malformed bid date, a bid number that no row holds. The
  constructors keep these places apart under the names the specification gives them.
  \<open>PermissionError\<close> is what the storage layer raises for a file another process holds,
  \<open>KeyError\<close> what a dictionary raises for a key it does not have.
\<close>

datatype error =
    NotFoundError
  | ValidationError
  | ConflictError
  | PermissionError
  | KeyError

section \<open>NameCodec\<close>

subsection \<open>\<open>sanitize_name\<close>\<close>

text \<open>
  \<^verbatim>\<open>
  def sanitize_name(value):
      if value is None: return ""
      value = re.sub(r"[\\/:*?\"<>|]", " ", value)
      value = re.sub(r"\s+", " ", value).strip()
      return value
  \<close>
\<close>

definition is_illegal :: "char \<Rightarrow> bool" where
  "is_illegal c = (c \<in> set [CHR 0x5C, CHR ''/'', CHR '':'', CHR ''*'', CHR ''?'', CHR 0x22,
                              CHR ''<'', CHR ''>'', CHR ''|''])"

definition replace_illegal :: "string \<Rightarrow> string" where
  "replace_illegal s = map (\<lambda>c. if is_illegal c then CHR '' '' else c) s"

text \<open>\<open>re.sub(r"\s+", " ", s)\<close>: every maximal run of whitespace becomes one space.\<close>

function collapse_ws :: "string \<Rightarrow> string" where
  "collapse_ws [] = []"
| "collapse_ws (c # cs) =
     (if is_space c then CHR '' '' # collapse_ws (dropWhile is_space cs)
      else c # collapse_ws cs)"
  by pat_completeness auto
termination
  by (relation "measure length") (auto simp: le_imp_less_Suc length_dropWhile_le)

fun sanitize_name :: "string option \<Rightarrow> string" where
  "sanitize_name None = []"
| "sanitize_name (Some v) = strip (collapse_ws (replace_illegal v))"

subsection \<open>\<open>normalize_bid_date\<close>\<close>

text \<open>
  \<^verbatim>\<open>
  match = re.match(r"^(0?[1-9]|1[0-2])-(0?[1-9]|[12]\d|3[01])$", raw_date)
  if not match: raise ValueError(...)
  return f"{int(match.group(1)):02d}-{int(match.group(2)):02d}"
  \<close>
  The matcher lists, in the order the backtracking engine tries them, the ways each
  piece of the pattern can match at the front of a text: the matched text and what is
  left. \<open>$\<close> holds at the end of the text and also just before a final newline.
\<close>

definition is_1_9 :: "char \<Rightarrow> bool" where
  "is_1_9 c = (let n = code_point c in 49 \<le> n \<and> n \<le> 57)"

text \<open>\<open>0?[1-9]\<close>: the optional zero is tried first, then the empty match.\<close>

definition rx_opt0_1_9 :: "string \<Rightarrow> (string \<times> string) list" where
  "rx_opt0_1_9 s =
     (case s of
        c # d # r \<Rightarrow> (if c = CHR ''0'' \<and> is_1_9 d then [([c, d], r)] else [])
      | _ \<Rightarrow> [])
     @ (case s of c # r \<Rightarrow> (if is_1_9 c then [([c], r)] else []) | [] \<Rightarrow> [])"

text \<open>A class followed by a class: \<open>1[0-2]\<close>, \<open>[12]\d\<close>, \<open>3[01]\<close>.\<close>

definition rx_two :: "(char \<Rightarrow> bool) \<Rightarrow> (char \<Rightarrow> bool) \<Rightarrow> string \<Rightarrow> (string \<times> string) list" where
  "rx_two p q s =
     (case s of c # d # r \<Rightarrow> (if p c \<and> q d then [([c, d], r)] else []) | _ \<Rightarrow> [])"

definition rx_month :: "string \<Rightarrow> (string \<times> string) list" where
  "rx_month s =
     rx_opt0_1_9 s
     @ rx_two (\<lambda>c. c = CHR ''1'') (\<lambda>c. c \<in> set ''012'') s"

definition rx_day :: "string \<Rightarrow> (string \<times> string) list" where
  "rx_day s =
     rx_opt0_1_9 s
     @ rx_two (\<lambda>c. c \<in> set ''12'') is_digit s
     @ rx_two (\<lambda>c. c = CHR ''3'') (\<lambda>c. c \<in> set ''01'') s"

definition rx_dash :: "string \<Rightarrow> string list" where
  "rx_dash s = (case s of c # r \<Rightarrow> (if c = CHR ''-'' then [r] else []) | [] \<Rightarrow> [])"

definition at_dollar :: "string \<Rightarrow> bool" where
  "at_dollar r = (r = [] \<or> r = [CHR 0x0A])"

definition match_bid_date :: "string \<Rightarrow> (string \<times> string) list" where
  "match_bid_date s =
     concat (map (\<lambda>(m, r1).
       concat (map (\<lambda>r2.
         concat (map (\<lambda>(d, r3). if at_dollar r3 then [(m, d)] else []) (rx_day r2)))
         (rx_dash r1)))
       (rx_month s))"

definition normalize_bid_date :: "string \<Rightarrow> error + string" where
  "normalize_bid_date raw_date =
     (case match_bid_date raw_date of
        [] \<Rightarrow> Inl ValidationError
      | (m, d) # _ \<Rightarrow> Inr (pad2 (int_of_digits m) @ ''-'' @ pad2 (int_of_digits d)))"

subsection \<open>\<open>get_bid_folders\<close> and \<open>get_next_bid_number\<close>\<close>

text \<open>
  \<^verbatim>\<open>
  def get_bid_folders(bid_root):
      return sorted([p for p in bid_root.iterdir() if p.is_dir()], key=lambda p: p.name)
  \<close>
  The bid root is given by the names of its directories, in the order the file system
  lists them; Python compares names code point by code point.
\<close>

definition get_bid_folders :: "string list \<Rightarrow> string list" where
  "get_bid_folders bid_root = sort bid_root"

text \<open>
  \<^verbatim>\<open>
  max_value = 0
  for folder in get_bid_folders(bid_root):
      match = re.match(r"^\s*(\d+)\b", folder.name)
      if match:
          number = int(match.group(1))
          if number > max_value: max_value = number
  if max_value == 0: raise ValueError(...)
  return max_value + 1
  \<close>
  A greedy repetition offers its longest match first and gives characters back one at
  a time; \<open>\b\<close> holds where exactly one of the two neighbours is a word character
  (the ends of the text count as not a word character).
\<close>

fun greedy_splits :: "(char \<Rightarrow> bool) \<Rightarrow> string \<Rightarrow> (string \<times> string) list" where
  "greedy_splits p [] = [([], [])]"
| "greedy_splits p (c # cs) =
     (if p c then map (\<lambda>(m, r). (c # m, r)) (greedy_splits p cs) else []) @ [([], c # cs)]"

definition word_boundary :: "string \<Rightarrow> string \<Rightarrow> bool" where
  "word_boundary pre post =
     ((pre \<noteq> [] \<and> is_word (last pre)) \<noteq> (post \<noteq> [] \<and> is_word (hd post)))"

definition rx_digits_boundary :: "string \<Rightarrow> string \<Rightarrow> string list" where
  "rx_digits_boundary pre s =
     concat (map (\<lambda>(ds, r). if ds \<noteq> [] \<and> word_boundary (pre @ ds) r then [ds] else [])
       (greedy_splits is_digit s))"

definition match_leading_number :: "string \<Rightarrow> string list" where
  "match_leading_number name =
     concat (map (\<lambda>(ws, r). rx_digits_boundary ws r) (greedy_splits is_space name))"

definition next_max :: "string \<Rightarrow> nat \<Rightarrow> nat" where
  "next_max name max_value =
     (case match_leading_number name of
        [] \<Rightarrow> max_value
      | ds # _ \<Rightarrow> (let number = int_of_digits ds
                   in if number > max_value then number else max_value))"

definition get_next_bid_number :: "string list \<Rightarrow> error + nat" where
  "get_next_bid_number bid_root =
     (let max_value = fold next_max (get_bid_folders bid_root) 0
      in if max_value = 0 then Inl NotFoundError else Inr (max_value + 1))"

text \<open>
  The number a folder name contributes, in plain terms: after any leading whitespace
  comes a run of digits, and the run ends at the end of the name or before a character
  that is not a word character.
\<close>

definition leading_number :: "string \<Rightarrow> nat option" where
  "leading_number name =
     (let ds = takeWhile is_digit (lstrip name); r = dropWhile is_digit (lstrip name)
      in if ds \<noteq> [] \<and> (r = [] \<or> \<not> is_word (hd r)) then Some (int_of_digits ds) else None)"

text \<open>The leading run of digits of a name, as the specification words it.\<close>

definition leading_digit_run :: "string \<Rightarrow> string" where
  "leading_digit_run name = takeWhile is_digit name"

subsection \<open>\<open>build_bid_folder_name\<close> and \<open>parse_bid_folder_name\<close>\<close>

text \<open>
  \<^verbatim>\<open>
  def build_bid_folder_name(bid_number: int, initials, bid_date, customer, bid_name):
      name = f"{bid_number} - {initials} - {bid_date} - {customer} - {bid_name}"
      return sanitize_name(name)
  \<close>
\<close>

definition build_bid_folder_name :: "int \<Rightarrow> string \<Rightarrow> string \<Rightarrow> string \<Rightarrow> string \<Rightarrow> string" where
  "build_bid_folder_name number inits date cust name =
     sanitize_name (Some (str_int number @ '' - '' @ inits @ '' - '' @ date @ '' - '' @ cust
                          @ '' - '' @ name))"

record BidFolderInfo =
  bid_number :: string
  initials :: string
  bid_date :: string
  customer :: string
  bid_name :: string
  folder :: string

text \<open>
  \<^verbatim>\<open>
  parts = re.split(r"\s-\s", folder_name, maxsplit=4)
  if len(parts) < 5: return None
  return BidFolderInfo(bid_number=parts[0].strip(), ..., bid_name=parts[4].strip(),
                       folder=folder_name)
  \<close>
  \<open>find_sep\<close> is the search for the leftmost match of \<open>\s-\s\<close>: the text before the
  match and the text after it. \<open>re_split n\<close> is \<open>re.split\<close> with \<open>maxsplit = n\<close> for a
  positive \<open>n\<close>: the search starts again behind each match, at most \<open>n\<close> times.
\<close>

fun find_sep :: "string \<Rightarrow> (string \<times> string) option" where
  "find_sep (a # b # c # rest) =
     (if is_space a \<and> b = CHR ''-'' \<and> is_space c then Some ([], rest)
      else map_option (\<lambda>(p, r). (a # p, r)) (find_sep (b # c # rest)))"
| "find_sep _ = None"

fun re_split :: "nat \<Rightarrow> string \<Rightarrow> string list" where
  "re_split 0 s = [s]"
| "re_split (Suc n) s =
     (case find_sep s of None \<Rightarrow> [s] | Some (p, r) \<Rightarrow> p # re_split n r)"

definition parse_bid_folder_name :: "string \<Rightarrow> BidFolderInfo option" where
  "parse_bid_folder_name folder_name =
     (let parts = re_split 4 folder_name
      in if length parts < 5 then None
         else Some \<lparr> bid_number = strip (parts ! 0),
                     initials = strip (parts ! 1),
                     bid_date = strip (parts ! 2),
                     customer = strip (parts ! 3),
                     bid_name = strip (parts ! 4),
                     folder = folder_name \<rparr>)"

text \<open>
  What the pattern \<open>\s-\s\<close> matches, and a text that holds a match; these serve to
  state where \<open>parse_bid_folder_name\<close> cuts.
\<close>

definition is_sep :: "string \<Rightarrow> bool" where
  "is_sep x = (case x of [a, b, c] \<Rightarrow> is_space a \<and> b = CHR ''-'' \<and> is_space c | _ \<Rightarrow> False)"

definition has_sep :: "string \<Rightarrow> bool" where
  "has_sep s = (\<exists>p x r. s = p @ x @ r \<and> is_sep x)"

text \<open>A text that holds \<open>n\<close> matches of the pattern, one behind the other.\<close>

fun splittable :: "nat \<Rightarrow> string \<Rightarrow> bool" where
  "splittable 0 s = True"
| "splittable (Suc k) s = (\<exists>p x r. s = p @ x @ r \<and> is_sep x \<and> splittable k r)"

text \<open>
  The words of a text (its maximal runs of characters that are not whitespace) and the
  words joined by single spaces; \<open>sanitize_name\<close> is described by them in the proofs.
\<close>

function words_of :: "string \<Rightarrow> string list" where
  "words_of [] = []"
| "words_of (c # cs) =
     (if is_space c then words_of cs
      else (c # takeWhile (\<lambda>x. \<not> is_space x) cs) # words_of (dropWhile (\<lambda>x. \<not> is_space x) cs))"
  by pat_completeness auto
termination
  by (relation "measure length") (auto simp: le_imp_less_Suc length_dropWhile_le)

fun unwords :: "string list \<Rightarrow> string" where
  "unwords [] = []"
| "unwords [w] = w"
| "unwords (w # v # ws) = w @ CHR '' '' # unwords (v # ws)"

section \<open>The worksheet\<close>

text \<open>
  Modelled from the spec: the storage library (openpyxl) is not part of the sources. Its
  contract, as section 6 of the specification has it: a mutable grid addressed by row
  and column, both counted from 1, with a queryable last row; a cell read gives a typed
  scalar or nothing; a cell write sets a scalar. A cell value is a text or an integer
  (what else a spreadsheet cell can hold, such as a floating point number or a date, is
  outside this model); \<open>None\<close> is the empty cell. \<open>max_row\<close> is the largest row that has
  a cell, and 1 on a sheet with no cells. A write raises it to the row written. A read
  leaves it alone: every read of the program is in row 1 or in a row up to \<open>max_row\<close>.
\<close>

datatype cell_value = StrV string | IntV int

record worksheet =
  cells :: "nat \<times> nat \<Rightarrow> cell_value option"
  max_row :: nat

definition empty_sheet :: worksheet where
  "empty_sheet = \<lparr> cells = (\<lambda>_. None), max_row = 1 \<rparr>"

definition set_cell :: "worksheet \<Rightarrow> nat \<Rightarrow> nat \<Rightarrow> cell_value \<Rightarrow> worksheet" where
  "set_cell ws r c v = ws \<lparr> cells := (cells ws)((r, c) := Some v), max_row := max (max_row ws) r \<rparr>"

text \<open>\<open>str(value)\<close> and the truth value of a cell value in a condition.\<close>

fun py_str :: "cell_value \<Rightarrow> string" where
  "py_str (StrV s) = s"
| "py_str (IntV i) = str_int i"

fun truthy :: "cell_value \<Rightarrow> bool" where
  "truthy (StrV s) = (s \<noteq> [])"
| "truthy (IntV i) = (i \<noteq> 0)"

section \<open>SchemaNormalizer\<close>

definition HEADER_DEFAULTS :: "string list" where
  "HEADER_DEFAULTS =
     [''Bid Folder'', ''Bid Number'', ''Estimator'', ''Bid Due Date'', ''Customer/GC'',
      ''Bid Name'', ''Proposal Date'', ''Proposal Amount'', ''Bid Status'']"

definition legacy_header_map :: "string \<Rightarrow> string option" where
  "legacy_header_map =
     map_of [(''Folder Name'', ''Bid Folder''), (''Bid#'', ''Bid Number''),
             (''GC/Owner'', ''Customer/GC''), (''Description'', ''Bid Name''),
             (''Due Date'', ''Bid Due Date''), (''Status'', ''Bid Status'')]"

text \<open>
  \<^verbatim>\<open>
  headers = {}; has_any = False
  for col in range(1, 31):
      value = worksheet.cell(row=1, column=col).value
      if value:
          canonical = legacy_header_map.get(str(value), str(value))
          if canonical != value:
              worksheet.cell(row=1, column=col).value = canonical
          headers.setdefault(canonical, col)
          has_any = True
  \<close>
  The loop state is the sheet, the dictionary and the flag.
\<close>

type_synonym header_map = "string \<Rightarrow> nat option"

definition canonical_of :: "cell_value \<Rightarrow> string" where
  "canonical_of v = (case legacy_header_map (py_str v) of Some t \<Rightarrow> t | None \<Rightarrow> py_str v)"

definition scan_header :: "nat \<Rightarrow> worksheet \<times> header_map \<times> bool \<Rightarrow> worksheet \<times> header_map \<times> bool" where
  "scan_header col st =
     (case st of (ws, headers, has_any) \<Rightarrow>
       (case cells ws (1, col) of
          None \<Rightarrow> (ws, headers, has_any)
        | Some v \<Rightarrow>
            if truthy v then
              (if StrV (canonical_of v) \<noteq> v then set_cell ws 1 col (StrV (canonical_of v)) else ws,
               if headers (canonical_of v) = None then headers(canonical_of v \<mapsto> col) else headers,
               True)
            else (ws, headers, has_any)))"

text \<open>
  \<^verbatim>\<open>
  for idx, header in enumerate(HEADER_DEFAULTS, start=1):
      worksheet.cell(row=1, column=idx).value = header
  \<close>
  and the like loop that stores \<open>headers[header] = idx\<close>.
\<close>

definition enumerate_defaults :: "(nat \<times> string) list" where
  "enumerate_defaults = zip [1..<Suc (length HEADER_DEFAULTS)] HEADER_DEFAULTS"

definition write_defaults :: "worksheet \<Rightarrow> worksheet" where
  "write_defaults ws = fold (\<lambda>(idx, header) w. set_cell w 1 idx (StrV header)) enumerate_defaults ws"

definition index_defaults :: "header_map \<Rightarrow> header_map" where
  "index_defaults headers = fold (\<lambda>(idx, header) h. h(header \<mapsto> idx)) enumerate_defaults headers"

definition needs_reorder :: "worksheet \<Rightarrow> bool" where
  "needs_reorder ws = list_ex (\<lambda>(idx, header). cells ws (1, idx) \<noteq> Some (StrV header)) enumerate_defaults"

definition ensure_headers :: "worksheet \<Rightarrow> worksheet \<times> header_map" where
  "ensure_headers worksheet0 =
     (case fold scan_header [1..<31] (worksheet0, Map.empty, False) of
        (ws, headers, has_any) \<Rightarrow>
          if \<not> has_any then (write_defaults ws, index_defaults headers)
          else ((if needs_reorder ws then write_defaults ws else ws), index_defaults headers))"

section \<open>RowMatcher\<close>

text \<open>
  \<^verbatim>\<open>
  def get_last_row(worksheet): return worksheet.max_row or 1
  def get_cell_text(worksheet, row, col):
      value = worksheet.cell(row=row, column=col).value
      if value is None: return ""
      return str(value).strip()
  def get_row_index_by_value(worksheet, col, target):
      for row in range(2, get_last_row(worksheet) + 1):
          value = worksheet.cell(row=row, column=col).value
          if value is None: continue
          if str(value).strip() == target: return row
      return None
  \<close>
\<close>

definition get_last_row :: "worksheet \<Rightarrow> nat" where
  "get_last_row ws = (if max_row ws = 0 then 1 else max_row ws)"

definition get_cell_text :: "worksheet \<Rightarrow> nat \<Rightarrow> nat \<Rightarrow> string" where
  "get_cell_text ws r c = (case cells ws (r, c) of None \<Rightarrow> [] | Some v \<Rightarrow> strip (py_str v))"

definition cell_matches :: "worksheet \<Rightarrow> nat \<Rightarrow> string \<Rightarrow> nat \<Rightarrow> bool" where
  "cell_matches ws c target r =
     (case cells ws (r, c) of None \<Rightarrow> False | Some v \<Rightarrow> strip (py_str v) = target)"

definition get_row_index_by_value :: "worksheet \<Rightarrow> nat \<Rightarrow> string \<Rightarrow> nat option" where
  "get_row_index_by_value ws c target = find (cell_matches ws c target) [2..<Suc (get_last_row ws)]"

text \<open>
  What the scan of the header row leaves in a cell: a value that counts as true is
  replaced by its canonical label, anything else stays.
\<close>

definition norm_cell :: "cell_value option \<Rightarrow> cell_value option" where
  "norm_cell x = (case x of None \<Rightarrow> None
                  | Some v \<Rightarrow> if truthy v then Some (StrV (canonical_of v)) else Some v)"

definition blank_cell :: "cell_value option \<Rightarrow> bool" where
  "blank_cell x = (case x of None \<Rightarrow> True | Some v \<Rightarrow> \<not> truthy v)"

text \<open>
  The sheet of the specification's example: the legacy header row \<open>Folder Name\<close>, \<open>Bid#\<close>,
  \<open>Estimator\<close>, \<open>Due Date\<close>, \<open>GC/Owner\<close>, \<open>Description\<close>; and the same sheet with one more
  legacy label, \<open>Status\<close>, in column 12.
\<close>

definition legacy_sheet :: worksheet where
  "legacy_sheet =
     fold (\<lambda>(idx, label) w. set_cell w 1 idx (StrV label))
       [(1, ''Folder Name''), (2, ''Bid#''), (3, ''Estimator''), (4, ''Due Date''),
        (5, ''GC/Owner''), (6, ''Description'')]
       empty_sheet"

definition legacy_sheet_wide :: worksheet where
  "legacy_sheet_wide = set_cell legacy_sheet 1 12 (StrV ''Status'')"

section \<open>ReconciliationDriver: the rows\<close>

text \<open>
  \<^verbatim>\<open>
  def write_row(worksheet, headers, row, bid_info):
      worksheet.cell(row=row, column=headers["Bid Folder"]).value = bid_info.folder
      worksheet.cell(row=row, column=headers["Bid Number"]).value = bid_info.bid_number
      worksheet.cell(row=row, column=headers["Estimator"]).value = bid_info.initials
      worksheet.cell(row=row, column=headers["Bid Due Date"]).value = bid_info.bid_date
      worksheet.cell(row=row, column=headers["Customer/GC"]).value = bid_info.customer
      worksheet.cell(row=row, column=headers["Bid Name"]).value = bid_info.bid_name
  \<close>
  A key that the dictionary lacks raises \<open>KeyError\<close>; the cells written before stay
  written, so the sheet is returned beside the error.
\<close>

definition put_cell ::
  "header_map \<Rightarrow> string \<Rightarrow> nat \<Rightarrow> string \<Rightarrow> error option \<times> worksheet \<Rightarrow> error option \<times> worksheet" where
  "put_cell headers key r txt st =
     (case st of
        (Some e, ws) \<Rightarrow> (Some e, ws)
      | (None, ws) \<Rightarrow>
          (case headers key of
             None \<Rightarrow> (Some KeyError, ws)
           | Some c \<Rightarrow> (None, set_cell ws r c (StrV txt))))"

definition write_row :: "worksheet \<Rightarrow> header_map \<Rightarrow> nat \<Rightarrow> BidFolderInfo \<Rightarrow> error option \<times> worksheet" where
  "write_row ws headers r info =
     put_cell headers ''Bid Name'' r (bid_name info)
       (put_cell headers ''Customer/GC'' r (customer info)
         (put_cell headers ''Bid Due Date'' r (bid_date info)
           (put_cell headers ''Estimator'' r (initials info)
             (put_cell headers ''Bid Number'' r (bid_number info)
               (put_cell headers ''Bid Folder'' r (folder info) (None, ws))))))"

text \<open>
  \<^verbatim>\<open>
  for folder in get_bid_folders(bid_root):
      info = parse_bid_folder_name(folder.name)
      if info is None: continue
      row = get_row_index_by_value(worksheet, headers["Bid Number"], info.bid_number)
      if row is None:
          row = get_row_index_by_value(worksheet, headers["Bid Folder"], info.folder)
      if row is None:
          last_row += 1
          row = last_row
      write_row(worksheet, headers, row, info)
  \<close>
  The loop state is the error raised so far (after which nothing more runs), the
  sheet, and the running \<open>last_row\<close>.
\<close>

definition write_at ::
  "header_map \<Rightarrow> BidFolderInfo \<Rightarrow> worksheet \<Rightarrow> nat \<Rightarrow> nat \<Rightarrow> error option \<times> worksheet \<times> nat" where
  "write_at headers info ws r last_row =
     (case write_row ws headers r info of (e, ws') \<Rightarrow> (e, ws', last_row))"

definition sync_folder ::
  "header_map \<Rightarrow> string \<Rightarrow> error option \<times> worksheet \<times> nat \<Rightarrow> error option \<times> worksheet \<times> nat" where
  "sync_folder headers folder_name st =
     (case st of
        (Some e, ws, last_row) \<Rightarrow> st
      | (None, ws, last_row) \<Rightarrow>
          (case parse_bid_folder_name folder_name of
             None \<Rightarrow> st
           | Some info \<Rightarrow>
               (case headers ''Bid Number'' of
                  None \<Rightarrow> (Some KeyError, ws, last_row)
                | Some cn \<Rightarrow>
                    (case get_row_index_by_value ws cn (bid_number info) of
                       Some r \<Rightarrow> write_at headers info ws r last_row
                     | None \<Rightarrow>
                         (case headers ''Bid Folder'' of
                            None \<Rightarrow> (Some KeyError, ws, last_row)
                          | Some cf \<Rightarrow>
                              (case get_row_index_by_value ws cf (folder info) of
                                 Some r \<Rightarrow> write_at headers info ws r last_row
                               | None \<Rightarrow> write_at headers info ws (last_row + 1) (last_row + 1)))))))"

text \<open>The body of the \<open>try\<close> block of \<open>sync_bid_workbook\<close>, on the sheet of the context.\<close>

definition sync_rows :: "string list \<Rightarrow> worksheet \<Rightarrow> error option \<times> worksheet" where
  "sync_rows bid_root worksheet0 =
     (case ensure_headers worksheet0 of
        (ws, headers) \<Rightarrow>
          (case fold (sync_folder headers) (get_bid_folders bid_root) (None, ws, get_last_row ws) of
             (e, ws', last_row) \<Rightarrow> (e, ws')))"

section \<open>LockAwareStore\<close>

text \<open>
  Modelled from the spec: the file system and the storage library are not part of the
  sources. A path is a directory and a file name; a workbook maps sheet names to sheets;
  the file system records which paths hold a workbook and which are exclusively held by
  another process. Opening a held file for read/write and saving to a held file raise
  \<open>PermissionError\<close> (section 6 of the specification: a distinct permission error);
  copying only reads its source, so it succeeds on a held source.
\<close>

record path =
  path_parent :: string
  path_name :: string

type_synonym workbook = "string \<Rightarrow> worksheet option"

record file_system =
  files :: "path \<Rightarrow> workbook option"
  locked :: "path \<Rightarrow> bool"

definition load_workbook :: "file_system \<Rightarrow> path \<Rightarrow> error + workbook" where
  "load_workbook fs p =
     (if locked fs p then Inl PermissionError
      else (case files fs p of None \<Rightarrow> Inl NotFoundError | Some wb \<Rightarrow> Inr wb))"

definition copy2 :: "file_system \<Rightarrow> path \<Rightarrow> path \<Rightarrow> error + file_system" where
  "copy2 fs src dst =
     (case files fs src of
        None \<Rightarrow> Inl NotFoundError
      | Some wb \<Rightarrow>
          (if locked fs dst then Inl PermissionError
           else Inr (fs\<lparr>files := (files fs)(dst \<mapsto> wb)\<rparr>)))"

definition save_workbook :: "file_system \<Rightarrow> path \<Rightarrow> workbook \<Rightarrow> error + file_system" where
  "save_workbook fs p wb =
     (if locked fs p then Inl PermissionError
      else Inr (fs\<lparr>files := (files fs)(p \<mapsto> wb)\<rparr>))"

text \<open>
  Modelled from the spec: \<open>pathlib\<close>. The suffix of a file name starts at its last dot,
  unless that dot is the first or the last character; the stem is the rest.
\<close>

definition suffix_of :: "string \<Rightarrow> string" where
  "suffix_of nm =
     (let ext = rev (takeWhile (\<lambda>c. c \<noteq> CHR ''.'') (rev nm)) in
      if CHR ''.'' \<in> set nm \<and> ext \<noteq> [] \<and> Suc (length ext) < length nm
      then CHR ''.'' # ext else [])"

definition stem_of :: "string \<Rightarrow> string" where
  "stem_of nm = take (length nm - length (suffix_of nm)) nm"

text \<open>
  Modelled from the spec: the clock. \<open>dt.datetime.now()\<close> is a parameter of every function
  that reads it; \<open>strftime("%Y%m%d-%H%M%S")\<close> pads the year to four digits and the other
  fields to two.
\<close>

record datetime =
  dt_year :: nat
  dt_month :: nat
  dt_day :: nat
  dt_hour :: nat
  dt_minute :: nat
  dt_second :: nat

definition pad4 :: "nat \<Rightarrow> string" where
  "pad4 n = replicate (4 - length (str_nat n)) (CHR ''0'') @ str_nat n"

definition pad2n :: "nat \<Rightarrow> string" where
  "pad2n n = replicate (2 - length (str_nat n)) (CHR ''0'') @ str_nat n"

definition strftime_stamp :: "datetime \<Rightarrow> string" where
  "strftime_stamp now =
     pad4 (dt_year now) @ pad2n (dt_month now) @ pad2n (dt_day now) @ ''-'' @
     pad2n (dt_hour now) @ pad2n (dt_minute now) @ pad2n (dt_second now)"

text \<open>
  \<^verbatim>\<open>
  def get_pending_save_path(path):
      stamp = dt.datetime.now().strftime("%Y%m%d-%H%M%S")
      return path.with_name(f"{path.stem} - Pending Update {stamp}{path.suffix}")
  \<close>
\<close>

definition get_pending_save_path :: "datetime \<Rightarrow> path \<Rightarrow> path" where
  "get_pending_save_path now p =
     p\<lparr>path_name := stem_of (path_name p) @ '' - Pending Update '' @ strftime_stamp now @ suffix_of (path_name p)\<rparr>"

text \<open>
  The context. The sheet of the source is an object inside the workbook object; here the
  context names the sheet and carries its current contents, and \<open>context_workbook\<close>, which
  is what gets saved, puts them back under that name.
\<close>

record ExcelContext =
  workbook :: workbook
  sheet_name :: string
  worksheet :: worksheet
  read_only :: bool
  pending_save_path :: "path option"
  workbook_path :: path

definition context_workbook :: "ExcelContext \<Rightarrow> workbook" where
  "context_workbook ctx = (workbook ctx)(sheet_name ctx \<mapsto> worksheet ctx)"

definition make_context :: "workbook \<Rightarrow> string \<Rightarrow> bool \<Rightarrow> path option \<Rightarrow> path \<Rightarrow> ExcelContext" where
  "make_context wb worksheet_name ro pending p =
     \<lparr>workbook = wb,
      sheet_name = worksheet_name,
      worksheet = (case wb worksheet_name of Some ws \<Rightarrow> ws | None \<Rightarrow> empty_sheet),
      read_only = ro,
      pending_save_path = pending,
      workbook_path = p\<rparr>"

text \<open>
  \<^verbatim>\<open>
  def new_excel_context(path, worksheet_name):
      if not path.exists(): raise FileNotFoundError(...)
      read_only = False; pending_save_path = None
      try:
          workbook = openpyxl.load_workbook(path)
      except PermissionError:
          read_only = True
          pending_save_path = get_pending_save_path(path)
          shutil.copy2(path, pending_save_path)
          workbook = openpyxl.load_workbook(pending_save_path)
      ...
  \<close>
  The result is the context or the error raised, beside the file system as it is left.
\<close>

definition new_excel_context ::
  "file_system \<Rightarrow> datetime \<Rightarrow> path \<Rightarrow> string \<Rightarrow> (error + ExcelContext) \<times> file_system" where
  "new_excel_context fs now p worksheet_name =
     (if files fs p = None then (Inl NotFoundError, fs)
      else
        (case load_workbook fs p of
           Inr wb \<Rightarrow> (Inr (make_context wb worksheet_name False None p), fs)
         | Inl e \<Rightarrow>
             (if e = PermissionError then
                (let pending = get_pending_save_path now p in
                 case copy2 fs p pending of
                   Inl e' \<Rightarrow> (Inl e', fs)
                 | Inr fs' \<Rightarrow>
                     (case load_workbook fs' pending of
                        Inl e' \<Rightarrow> (Inl e', fs')
                      | Inr wb \<Rightarrow> (Inr (make_context wb worksheet_name True (Some pending) p), fs')))
              else (Inl e, fs))))"

text \<open>
  \<^verbatim>\<open>
  def close_excel_context(context):
      if context.read_only and context.pending_save_path is not None:
          context.workbook.save(context.pending_save_path)
      else:
          context.workbook.save(context.workbook_path)
  \<close>
\<close>

definition active_path :: "ExcelContext \<Rightarrow> path" where
  "active_path ctx =
     (case pending_save_path ctx of
        Some pending \<Rightarrow> (if read_only ctx then pending else workbook_path ctx)
      | None \<Rightarrow> workbook_path ctx)"

definition close_excel_context :: "file_system \<Rightarrow> ExcelContext \<Rightarrow> error + file_system" where
  "close_excel_context fs ctx = save_workbook fs (active_path ctx) (context_workbook ctx)"

section \<open>ReconciliationDriver: the operations\<close>

text \<open>What the operation prints at its end.\<close>

datatype report =
    SavedPending path
  | WorkbookUpdated
  | StatusUpdated

definition report_of :: "ExcelContext \<Rightarrow> report \<Rightarrow> report" where
  "report_of ctx done =
     (case pending_save_path ctx of
        Some pending \<Rightarrow> (if read_only ctx then SavedPending pending else done)
      | None \<Rightarrow> done)"

text \<open>
  \<open>try: body finally: close_excel_context(context)\<close>: the body runs on the sheet of the
  context, then the context is closed whether or not the body raised; an error of the close
  replaces the one of the body; without any error the report is printed.
\<close>

definition with_context ::
  "file_system \<Rightarrow> datetime \<Rightarrow> path \<Rightarrow> string \<Rightarrow> (worksheet \<Rightarrow> error option \<times> worksheet) \<Rightarrow> report
     \<Rightarrow> (error + report) \<times> file_system" where
  "with_context fs now p worksheet_name body done =
     (case new_excel_context fs now p worksheet_name of
        (Inl e, fs1) \<Rightarrow> (Inl e, fs1)
      | (Inr ctx, fs1) \<Rightarrow>
          (case body (worksheet ctx) of
             (err, ws') \<Rightarrow>
               (case close_excel_context fs1 (ctx\<lparr>worksheet := ws'\<rparr>) of
                  Inl e \<Rightarrow> (Inl e, fs1)
                | Inr fs2 \<Rightarrow>
                    (case err of
                       Some e \<Rightarrow> (Inl e, fs2)
                     | None \<Rightarrow> (Inr (report_of ctx done), fs2)))))"

definition sync_bid_workbook ::
  "file_system \<Rightarrow> datetime \<Rightarrow> string list \<Rightarrow> path \<Rightarrow> string \<Rightarrow> (error + report) \<times> file_system" where
  "sync_bid_workbook fs now bid_root p worksheet_name =
     with_context fs now p worksheet_name (sync_rows bid_root) WorkbookUpdated"

text \<open>
  \<open>update_bid_status\<close>. What the operator types is a parameter: the bid number (as
  \<open>read_non_empty\<close> returns it), the status line, the two yes/no answers and the three
  further lines. A line is only read where the source prompts for it.
\<close>

record status_input =
  status_line :: string
  update_amount :: bool
  amount_line :: string
  update_date :: bool
  date_line :: string
  award_line :: string

definition prompt_value :: "worksheet \<Rightarrow> header_map \<Rightarrow> nat \<Rightarrow> string \<Rightarrow> bool \<Rightarrow> string \<Rightarrow> string" where
  "prompt_value ws headers r key yes line =
     (case headers key of
        None \<Rightarrow> []
      | Some c \<Rightarrow>
          (if get_cell_text ws r c \<noteq> [] then (if yes then strip line else [])
           else strip line))"

definition write_if :: "header_map \<Rightarrow> string \<Rightarrow> nat \<Rightarrow> string \<Rightarrow> worksheet \<Rightarrow> worksheet" where
  "write_if headers key r txt ws =
     (if txt \<noteq> [] then
        (case headers key of Some c \<Rightarrow> set_cell ws r c (StrV txt) | None \<Rightarrow> ws)
      else ws)"

definition update_rows :: "string \<Rightarrow> status_input \<Rightarrow> worksheet \<Rightarrow> error option \<times> worksheet" where
  "update_rows bid inp worksheet0 =
     (case ensure_headers worksheet0 of
        (ws, headers) \<Rightarrow>
          (case headers ''Bid Number'' of
             None \<Rightarrow> (Some KeyError, ws)
           | Some cn \<Rightarrow>
               (case get_row_index_by_value ws cn bid of
                  None \<Rightarrow> (Some NotFoundError, ws)
                | Some r \<Rightarrow>
                    (let status = strip (status_line inp);
                         proposal_amount =
                           prompt_value ws headers r ''Proposal Amount'' (update_amount inp) (amount_line inp);
                         proposal_date =
                           prompt_value ws headers r ''Proposal Date'' (update_date inp) (date_line inp);
                         award = (case headers ''Award'' of None \<Rightarrow> [] | Some c \<Rightarrow> strip (award_line inp))
                     in (None,
                         write_if headers ''Award'' r award
                           (write_if headers ''Proposal Date'' r proposal_date
                             (write_if headers ''Proposal Amount'' r proposal_amount
                               (write_if headers ''Bid Status'' r status ws))))))))"

definition update_bid_status ::
  "file_system \<Rightarrow> datetime \<Rightarrow> path \<Rightarrow> string \<Rightarrow> string \<Rightarrow> status_input \<Rightarrow> (error + report) \<times> file_system" where
  "update_bid_status fs now p worksheet_name bid inp =
     with_context fs now p worksheet_name (update_rows bid inp) StatusUpdated"

section \<open>Proofs: character classes and the leading bid number\<close>


lemma is_digit_word: "is_digit c \<Longrightarrow> is_word c"
  by (auto simp: is_digit_def is_word_def Let_def)

lemma is_space_not_digit: "is_space c \<Longrightarrow> \<not> is_digit c"
  by (auto simp: is_digit_def is_space_def Let_def)

lemma map_greedy_cons:
  "map ((\<lambda>(m, r). f m r) \<circ> (\<lambda>(m, r). (c # m, r))) xs = map (\<lambda>(m, r). f (c # m) r) xs"
  by (induction xs) auto

lemma greedy_first:
  assumes "\<And>m c r. s = m @ c # r \<Longrightarrow> (\<forall>x\<in>set m. p x) \<Longrightarrow> p c \<Longrightarrow> f m (c # r) = []"
  shows "concat (map (\<lambda>(m, r). f m r) (greedy_splits p s)) = f (takeWhile p s) (dropWhile p s)"
  using assms
proof (induction s arbitrary: f)
  case Nil
  then show ?case by simp
next
  case (Cons c cs)
  show ?case
  proof (cases "p c")
    case False
    then show ?thesis by simp
  next
    case True
    have last_empty: "f [] (c # cs) = []"
      using Cons.prems [of "[]" c cs] True by simp
    have step: "f (c # m) (d # r) = []" if "cs = m @ d # r" "\<forall>x\<in>set m. p x" "p d" for m d r
      using Cons.prems [of "c # m" d r] True that by simp
    have "concat (map (\<lambda>(m, r). f (c # m) r) (greedy_splits p cs))
        = f (c # takeWhile p cs) (dropWhile p cs)"
      by (rule Cons.IH [of "\<lambda>m r. f (c # m) r"]) (rule step)
    then show ?thesis
      using True last_empty by (simp add: map_greedy_cons)
  qed
qed

lemma rx_digits_boundary_eq:
  "rx_digits_boundary pre s =
     (if takeWhile is_digit s \<noteq> [] \<and> word_boundary (pre @ takeWhile is_digit s) (dropWhile is_digit s)
      then [takeWhile is_digit s] else [])"
  unfolding rx_digits_boundary_def
  by (rule greedy_first) (auto simp: word_boundary_def is_digit_word)

lemma match_leading_number_eq:
  "match_leading_number name = rx_digits_boundary (takeWhile is_space name) (lstrip name)"
  unfolding match_leading_number_def lstrip_def
  by (rule greedy_first) (simp add: rx_digits_boundary_eq is_space_not_digit)


lemma match_leading_number_leading:
  "match_leading_number name =
     (case leading_number name of None \<Rightarrow> [] | Some k \<Rightarrow> [takeWhile is_digit (lstrip name)])"
proof -
  let ?ds = "takeWhile is_digit (lstrip name)"
  have w: "is_word (last (takeWhile is_space name @ ?ds))" if "?ds \<noteq> []"
  proof -
    have "last ?ds \<in> set ?ds" using that by simp
    then have "is_digit (last ?ds)" by (rule set_takeWhileD [THEN conjunct2])
    then show ?thesis using that by (simp add: is_digit_word)
  qed
  show ?thesis
  proof (cases "?ds = []")
    case True
    then show ?thesis
      by (simp add: match_leading_number_eq rx_digits_boundary_eq leading_number_def Let_def)
  next
    case False
    then show ?thesis using w [OF False]
      by (simp add: match_leading_number_eq rx_digits_boundary_eq leading_number_def Let_def
          word_boundary_def)
  qed
qed

lemma next_max_eq:
  "next_max name mx = (case leading_number name of None \<Rightarrow> mx | Some k \<Rightarrow> max k mx)"
proof (cases "leading_number name")
  case None
  then show ?thesis by (simp add: next_max_def match_leading_number_leading)
next
  case (Some k)
  then have "k = int_of_digits (takeWhile is_digit (lstrip name))"
    by (simp add: leading_number_def Let_def split: if_splits)
  then show ?thesis using Some
    by (simp add: next_max_def match_leading_number_leading Let_def max_def)
qed

lemma fold_next_max:
  "fold next_max names mx = Max (insert mx (set (List.map_filter leading_number names)))"
proof (induction names arbitrary: mx)
  case Nil
  then show ?case by (simp add: List.map_filter_simps)
next
  case (Cons n ns)
  let ?K = "set (List.map_filter leading_number ns)"
  show ?case
  proof (cases "leading_number n")
    case None
    then show ?thesis using Cons.IH [of mx] by (simp add: next_max_eq List.map_filter_simps)
  next
    case (Some k)
    have "Max (insert (max k mx) ?K) = Max (insert mx (insert k ?K))"
    proof (cases "?K = {}")
      case True
      then show ?thesis by (simp add: max.commute)
    next
      case False
      then show ?thesis by (simp add: max.assoc max.commute max.left_commute)
    qed
    then show ?thesis using Some Cons.IH [of "max k mx"]
      by (simp add: next_max_eq List.map_filter_simps)
  qed
qed


lemma set_map_filter_sort:
  "set (List.map_filter f (sort xs)) = set (List.map_filter f xs)"
  by (simp add: List.map_filter_def)

text \<open>
  Claim C7, as the code has it. \<open>get_next_bid_number\<close> returns one plus the largest
  number that a folder name contributes, and raises the not-found error exactly when no
  name contributes a number above zero. A name contributes the digit run that follows
  its leading whitespace, if that run ends at the end of the name or before a character
  that is not a word character (\<open>leading_number\<close>); the order of the names plays no role.
\<close>

theorem get_next_bid_number_max:
  "get_next_bid_number names =
     (let ks = List.map_filter leading_number names
      in if \<forall>k\<in>set ks. k = 0 then Inl NotFoundError else Inr (Max (set ks) + 1))"
proof -
  let ?K = "set (List.map_filter leading_number names)"
  have m: "fold next_max (get_bid_folders names) 0 = Max (insert 0 ?K)"
    by (simp add: fold_next_max get_bid_folders_def set_map_filter_sort)
  show ?thesis
  proof (cases "\<forall>k\<in>?K. k = 0")
    case True
    have "Max (insert 0 ?K) \<in> insert 0 ?K"
      by (rule Max_in) simp_all
    then have "Max (insert 0 ?K) = 0" using True by auto
    then show ?thesis using True m by (simp add: get_next_bid_number_def Let_def)
  next
    case False
    then obtain k where k: "k \<in> ?K" "0 < k" by auto
    then have ne: "?K \<noteq> {}" by auto
    have eq: "Max (insert 0 ?K) = Max ?K"
      using ne by simp
    have "k \<le> Max ?K" using k by simp
    then have "0 < Max ?K" using k by linarith
    then show ?thesis using False m eq by (simp add: get_next_bid_number_def Let_def)
  qed
qed

lemmas char_class_defs = is_space_def is_digit_def is_word_def code_point_def Let_def

text \<open>The example of the specification: the three names give 14.\<close>

theorem get_next_bid_number_max_witness:
  "get_next_bid_number [''12 - MD - ...'', ''7 - JS - ...'', ''13-something''] = Inr 14"
  using get_next_bid_number_max [of "[''12 - MD - ...'', ''7 - JS - ...'', ''13-something'']"]
  by (simp add: leading_number_def lstrip_def char_class_defs int_of_digits_def digit_value_def List.map_filter_simps)

text \<open>
  The claim as worded fails on a digit run that a word character follows: the name
  \<open>12abc\<close> starts with the digits 12, yet the pattern's \<open>\b\<close> rejects it and no number
  is found.
\<close>

theorem get_next_bid_number_counterexample:
  "leading_digit_run ''12abc'' = ''12'' \<and> get_next_bid_number [''12abc''] = Inl NotFoundError"
  by (simp add: leading_digit_run_def get_next_bid_number_def get_bid_folders_def next_max_def
      match_leading_number_def rx_digits_boundary_def word_boundary_def char_class_defs)

section \<open>Proofs: the bid date\<close>

lemmas bid_date_defs =
  normalize_bid_date_def match_bid_date_def rx_month_def rx_day_def rx_dash_def rx_two_def
  rx_opt0_1_9_def at_dollar_def is_1_9_def is_digit_def code_point_def pad2_def
  int_of_digits_def digit_value_def digit_char_def

text \<open>The accepted and the rejected examples of the specification.\<close>

lemma normalize_bid_date_accepts:
  "normalize_bid_date ''12-5'' = Inr ''12-05''"
  "normalize_bid_date ''12-05'' = Inr ''12-05''"
  "normalize_bid_date ''1-1'' = Inr ''01-01''"
  "normalize_bid_date ''02-30'' = Inr ''02-30''"
  by (simp_all add: bid_date_defs str_nat.simps)

lemma normalize_bid_date_rejects:
  "normalize_bid_date ''13-01'' = Inl ValidationError"
  "normalize_bid_date ''00-05'' = Inl ValidationError"
  "normalize_bid_date ''12-32'' = Inl ValidationError"
  by (simp_all add: bid_date_defs str_nat.simps)

text \<open>
  Claim C8 at the input where the code leaves it. The text \<open>12-5\<close> followed by one
  newline is not of the form month, dash, day, so the claim has it rejected; the
  pattern ends in \<open>$\<close>, which also holds before a final newline, and the code returns
  the normalised date.
\<close>

theorem normalize_bid_date_trailing_newline:
  "normalize_bid_date (''12-5'' @ [CHR 0x0A]) = Inr ''12-05''"
  by (simp add: bid_date_defs str_nat.simps)

section \<open>Proofs: where the folder name is cut\<close>



lemma is_sep_iff: "is_sep x \<longleftrightarrow> (\<exists>a c. x = [a, CHR ''-'', c] \<and> is_space a \<and> is_space c)"
  by (auto simp: is_sep_def split: list.splits)

lemma has_sep_Cons:
  "has_sep (a # s) \<longleftrightarrow> (\<exists>c r. s = CHR ''-'' # c # r \<and> is_space a \<and> is_space c) \<or> has_sep s"
proof
  assume "has_sep (a # s)"
  then obtain p x r where d: "a # s = p @ x @ r" "is_sep x" by (auto simp: has_sep_def)
  show "(\<exists>c r. s = CHR ''-'' # c # r \<and> is_space a \<and> is_space c) \<or> has_sep s"
  proof (cases p)
    case Nil
    then show ?thesis using d by (auto simp: is_sep_iff)
  next
    case (Cons b p')
    then have "s = p' @ x @ r" using d by simp
    then have "has_sep s" unfolding has_sep_def using d(2) by blast
    then show ?thesis by simp
  qed
next
  assume "(\<exists>c r. s = CHR ''-'' # c # r \<and> is_space a \<and> is_space c) \<or> has_sep s"
  then show "has_sep (a # s)"
  proof
    assume "\<exists>c r. s = CHR ''-'' # c # r \<and> is_space a \<and> is_space c"
    then obtain c r where "s = CHR ''-'' # c # r" "is_space a" "is_space c" by auto
    then have "a # s = [] @ [a, CHR ''-'', c] @ r" "is_sep [a, CHR ''-'', c]"
      by (auto simp: is_sep_iff)
    then show ?thesis unfolding has_sep_def by blast
  next
    assume "has_sep s"
    then obtain p x r where "s = p @ x @ r" "is_sep x" by (auto simp: has_sep_def)
    then have "a # s = (a # p) @ x @ r" by simp
    then show ?thesis using \<open>is_sep x\<close> unfolding has_sep_def by blast
  qed
qed

lemma has_sep_Nil [simp]: "\<not> has_sep []"
  by (auto simp: has_sep_def is_sep_iff)

lemma find_sep_None: "find_sep s = None \<longleftrightarrow> \<not> has_sep s"
  by (induction s rule: find_sep.induct) (auto simp: has_sep_Cons)

lemma find_sep_Some:
  "find_sep s = Some (p, r) \<Longrightarrow>
     \<exists>a c. is_space a \<and> is_space c \<and> s = p @ [a, CHR ''-'', c] @ r \<and> \<not> has_sep (p @ [a, CHR ''-''])"
proof (induction s arbitrary: p rule: find_sep.induct)
  case (1 a b c rest)
  show ?case
  proof (cases "is_space a \<and> b = CHR ''-'' \<and> is_space c")
    case True
    then show ?thesis using 1 by (auto simp: has_sep_Cons)
  next
    case False
    then obtain p' where p': "find_sep (b # c # rest) = Some (p', r)" "p = a # p'"
      using 1 by auto
    from "1.IH" [OF False p'(1)] obtain x y where
      xy: "is_space x" "is_space y" "b # c # rest = p' @ [x, CHR ''-'', y] @ r"
          "\<not> has_sep (p' @ [x, CHR ''-''])" by auto
    have "\<not> has_sep (a # p' @ [x, CHR ''-''])"
    proof (cases p')
      case Nil
      then show ?thesis using xy False by (auto simp: has_sep_Cons)
    next
      case (Cons u us)
      show ?thesis
      proof (cases us)
        case Nil
        then show ?thesis using xy False Cons by (auto simp: has_sep_Cons)
      next
        case (Cons v vs)
        then show ?thesis using xy False \<open>p' = u # us\<close> by (auto simp: has_sep_Cons)
      qed
    qed
    then show ?thesis using xy p' by auto
  qed
qed auto


lemma splittable_prefix: "splittable k r \<Longrightarrow> splittable k (q @ r)"
proof (cases k)
  case 0
  then show ?thesis by simp
next
  case (Suc j)
  assume "splittable k r"
  then obtain p x r' where "r = p @ x @ r'" "is_sep x" "splittable j r'"
    using Suc by auto
  then have "q @ r = (q @ p) @ x @ r'" by simp
  then have "splittable (Suc j) (q @ r)"
    using \<open>is_sep x\<close> \<open>splittable j r'\<close> unfolding splittable.simps by blast
  then show ?thesis using Suc by simp
qed

lemma is_sep_length: "is_sep x \<Longrightarrow> length x = 3"
  by (auto simp: is_sep_iff)

lemma length_re_split_le: "length (re_split n s) \<le> Suc n"
  by (induction n arbitrary: s) (auto split: option.splits)

lemma re_split_not_Nil [simp]: "re_split n s \<noteq> []"
  by (cases n) (auto split: option.splits)

lemma leftmost_suffix:
  assumes "s = p @ x @ r" "is_sep x" "\<not> has_sep (p @ take 2 x)"
    and "s = p' @ x' @ r'" "is_sep x'"
  shows "\<exists>q. r = q @ r'"
proof -
  have lp: "length p \<le> length p'"
  proof (rule ccontr)
    assume "\<not> length p \<le> length p'"
    then have lt: "length p' < length p" by simp
    have "p' @ x' @ r' = p @ x @ r" using assms by simp
    have l3: "length x' = 3" "length x = 3" using assms by (auto dest: is_sep_length)
    have "take (length p + 2) s = p @ take 2 x" using assms(1) l3 by simp
    moreover have "take (length p + 2) s = p' @ x' @ take (length p + 2 - length p' - 3) r'"
      using assms(4) lt l3 by simp
    ultimately have "p @ take 2 x = p' @ x' @ take (length p + 2 - length p' - 3) r'" by simp
    then have "has_sep (p @ take 2 x)" unfolding has_sep_def using assms(5) by blast
    then show False using assms(3) by simp
  qed
  have l3: "length x' = 3" "length x = 3" using assms by (auto dest: is_sep_length)
  have "r = drop (length p + 3) s" using assms(1) l3 by simp
  moreover have "r' = drop (length p' + 3) s" using assms(4) l3 by simp
  ultimately have "r' = drop (length p' - length p) r" using lp by simp
  then have "r = take (length p' - length p) r @ r'" by simp
  then show ?thesis by blast
qed

lemma re_split_full: "length (re_split n s) = Suc n \<longleftrightarrow> splittable n s"
proof (induction n arbitrary: s)
  case 0
  then show ?case by simp
next
  case (Suc n)
  show ?case
  proof (cases "find_sep s")
    case None
    then have "\<not> has_sep s" by (simp add: find_sep_None)
    then have "\<not> splittable (Suc n) s" by (auto simp: has_sep_def)
    then show ?thesis using None by simp
  next
    case (Some pr)
    obtain p r where pr: "pr = (p, r)" by (cases pr)
    from find_sep_Some [OF Some [unfolded pr]] obtain a c where
      ac: "is_space a" "is_space c" "s = p @ [a, CHR ''-'', c] @ r"
          "\<not> has_sep (p @ [a, CHR ''-''])" by auto
    have sep: "is_sep [a, CHR ''-'', c]" using ac by (simp add: is_sep_iff)
    have "splittable (Suc n) s \<longleftrightarrow> splittable n r"
    proof
      assume "splittable n r"
      then show "splittable (Suc n) s" using ac(3) sep unfolding splittable.simps by blast
    next
      assume "splittable (Suc n) s"
      then obtain p' x' r' where d: "s = p' @ x' @ r'" "is_sep x'" "splittable n r'" by auto
      have "\<exists>q. r = q @ r'"
        by (rule leftmost_suffix [OF ac(3) sep _ d(1) d(2)]) (use ac(4) in simp)
      then show "splittable n r" using d(3) splittable_prefix by blast
    qed
    then show ?thesis using Some pr Suc.IH [of r] by simp
  qed
qed

lemma re_split_4_cases:
  assumes "length (re_split 4 s) = 5"
  shows "\<exists>p0 r0 p1 r1 p2 r2 p3 r3.
           find_sep s = Some (p0, r0) \<and> find_sep r0 = Some (p1, r1) \<and>
           find_sep r1 = Some (p2, r2) \<and> find_sep r2 = Some (p3, r3) \<and>
           re_split 4 s = [p0, p1, p2, p3, r3]"
  using assms by (auto simp: numeral_eq_Suc split: option.splits)

lemma splittable_SucI:
  "s = p @ x @ r \<Longrightarrow> is_sep x \<Longrightarrow> splittable k r \<Longrightarrow> splittable (Suc k) s"
  unfolding splittable.simps by blast

lemma splittable_4:
  "splittable 4 s \<longleftrightarrow>
     (\<exists>p0 x0 p1 x1 p2 x2 p3 x3 p4.
        s = p0 @ x0 @ p1 @ x1 @ p2 @ x2 @ p3 @ x3 @ p4 \<and>
        is_sep x0 \<and> is_sep x1 \<and> is_sep x2 \<and> is_sep x3)"
proof
  assume "splittable 4 s"
  then have "splittable (Suc (Suc (Suc (Suc 0)))) s" by (simp add: numeral_eq_Suc)
  then obtain p0 x0 r0 where d0: "s = p0 @ x0 @ r0" "is_sep x0" "splittable (Suc (Suc (Suc 0))) r0"
    unfolding splittable.simps(2) [of "Suc (Suc (Suc 0))"] by blast
  from d0(3) obtain p1 x1 r1 where d1: "r0 = p1 @ x1 @ r1" "is_sep x1" "splittable (Suc (Suc 0)) r1"
    unfolding splittable.simps(2) [of "Suc (Suc 0)"] by blast
  from d1(3) obtain p2 x2 r2 where d2: "r1 = p2 @ x2 @ r2" "is_sep x2" "splittable (Suc 0) r2"
    unfolding splittable.simps(2) [of "Suc 0"] by blast
  from d2(3) obtain p3 x3 r3 where d3: "r2 = p3 @ x3 @ r3" "is_sep x3"
    unfolding splittable.simps(2) [of 0] by blast
  have "s = p0 @ x0 @ p1 @ x1 @ p2 @ x2 @ p3 @ x3 @ r3"
    using d0(1) d1(1) d2(1) d3(1) by simp
  then show "\<exists>p0 x0 p1 x1 p2 x2 p3 x3 p4.
        s = p0 @ x0 @ p1 @ x1 @ p2 @ x2 @ p3 @ x3 @ p4 \<and>
        is_sep x0 \<and> is_sep x1 \<and> is_sep x2 \<and> is_sep x3"
    using d0(2) d1(2) d2(2) d3(2) by blast
next
  assume "\<exists>p0 x0 p1 x1 p2 x2 p3 x3 p4.
        s = p0 @ x0 @ p1 @ x1 @ p2 @ x2 @ p3 @ x3 @ p4 \<and>
        is_sep x0 \<and> is_sep x1 \<and> is_sep x2 \<and> is_sep x3"
  then obtain p0 x0 p1 x1 p2 x2 p3 x3 p4 where
    d: "s = p0 @ x0 @ p1 @ x1 @ p2 @ x2 @ p3 @ x3 @ p4"
       "is_sep x0" "is_sep x1" "is_sep x2" "is_sep x3" by blast
  have "splittable (Suc 0) (p3 @ x3 @ p4)"
    by (rule splittable_SucI [OF refl d(5)]) simp
  then have "splittable (Suc (Suc 0)) (p2 @ x2 @ p3 @ x3 @ p4)"
    by (rule splittable_SucI [OF refl d(4)])
  then have "splittable (Suc (Suc (Suc 0))) (p1 @ x1 @ p2 @ x2 @ p3 @ x3 @ p4)"
    by (rule splittable_SucI [OF refl d(3)])
  then have "splittable (Suc (Suc (Suc (Suc 0)))) (p0 @ x0 @ p1 @ x1 @ p2 @ x2 @ p3 @ x3 @ p4)"
    by (rule splittable_SucI [OF refl d(2)])
  then show "splittable 4 s" using d(1) by (simp add: numeral_eq_Suc)
qed

lemma parse_None_iff: "parse_bid_folder_name s = None \<longleftrightarrow> \<not> splittable 4 s"
proof -
  have "length (re_split 4 s) \<le> 5" using length_re_split_le [of 4 s] by simp
  moreover have "length (re_split 4 s) = 5 \<longleftrightarrow> splittable 4 s"
    using re_split_full [of 4 s] by simp
  ultimately show ?thesis by (auto simp: parse_bid_folder_name_def Let_def)
qed

text \<open>
  Claim C9, as the code has it. \<open>parse_bid_folder_name\<close> cuts the folder name at
  matches of the pattern \<open>\s-\s\<close>: any whitespace character, a dash, any whitespace
  character, of which space-dash-space is one case. It returns nothing exactly when
  the name does not hold four such matches one behind the other. Otherwise it cuts at
  the leftmost match four times (no match starts earlier in a part, not even one that
  runs into the first two characters of the separator that ends the part), the fifth
  part takes all that is left, and every field is the trimmed part.
\<close>

theorem parse_bid_folder_name_cuts:
  "(parse_bid_folder_name s = None \<longleftrightarrow>
      \<not> (\<exists>p0 x0 p1 x1 p2 x2 p3 x3 p4.
          s = p0 @ x0 @ p1 @ x1 @ p2 @ x2 @ p3 @ x3 @ p4 \<and>
          is_sep x0 \<and> is_sep x1 \<and> is_sep x2 \<and> is_sep x3)) \<and>
   (\<forall>info. parse_bid_folder_name s = Some info \<longrightarrow>
      (\<exists>p0 x0 p1 x1 p2 x2 p3 x3 p4.
          s = p0 @ x0 @ p1 @ x1 @ p2 @ x2 @ p3 @ x3 @ p4 \<and>
          is_sep x0 \<and> \<not> has_sep (p0 @ take 2 x0) \<and>
          is_sep x1 \<and> \<not> has_sep (p1 @ take 2 x1) \<and>
          is_sep x2 \<and> \<not> has_sep (p2 @ take 2 x2) \<and>
          is_sep x3 \<and> \<not> has_sep (p3 @ take 2 x3) \<and>
          info = \<lparr> bid_number = strip p0, initials = strip p1, bid_date = strip p2,
                   customer = strip p3, bid_name = strip p4, folder = s \<rparr>))"
proof (intro conjI allI impI)
  show "parse_bid_folder_name s = None \<longleftrightarrow>
      \<not> (\<exists>p0 x0 p1 x1 p2 x2 p3 x3 p4.
          s = p0 @ x0 @ p1 @ x1 @ p2 @ x2 @ p3 @ x3 @ p4 \<and>
          is_sep x0 \<and> is_sep x1 \<and> is_sep x2 \<and> is_sep x3)"
    by (simp only: parse_None_iff splittable_4)
next
  fix info
  assume some: "parse_bid_folder_name s = Some info"
  then have len: "length (re_split 4 s) = 5"
    using length_re_split_le [of 4 s] by (auto simp: parse_bid_folder_name_def Let_def split: if_splits)
  from re_split_4_cases [OF len] obtain p0 r0 p1 r1 p2 r2 p3 r3 where
    f: "find_sep s = Some (p0, r0)" "find_sep r0 = Some (p1, r1)"
       "find_sep r1 = Some (p2, r2)" "find_sep r2 = Some (p3, r3)"
       "re_split 4 s = [p0, p1, p2, p3, r3]" by blast
  from find_sep_Some [OF f(1)] obtain a0 c0 where
    s0: "is_space a0" "is_space c0" "s = p0 @ [a0, CHR ''-'', c0] @ r0"
        "\<not> has_sep (p0 @ [a0, CHR ''-''])" by blast
  from find_sep_Some [OF f(2)] obtain a1 c1 where
    s1: "is_space a1" "is_space c1" "r0 = p1 @ [a1, CHR ''-'', c1] @ r1"
        "\<not> has_sep (p1 @ [a1, CHR ''-''])" by blast
  from find_sep_Some [OF f(3)] obtain a2 c2 where
    s2: "is_space a2" "is_space c2" "r1 = p2 @ [a2, CHR ''-'', c2] @ r2"
        "\<not> has_sep (p2 @ [a2, CHR ''-''])" by blast
  from find_sep_Some [OF f(4)] obtain a3 c3 where
    s3: "is_space a3" "is_space c3" "r2 = p3 @ [a3, CHR ''-'', c3] @ r3"
        "\<not> has_sep (p3 @ [a3, CHR ''-''])" by blast
  let ?x0 = "[a0, CHR ''-'', c0]" and ?x1 = "[a1, CHR ''-'', c1]"
  let ?x2 = "[a2, CHR ''-'', c2]" and ?x3 = "[a3, CHR ''-'', c3]"
  have eq: "s = p0 @ ?x0 @ p1 @ ?x1 @ p2 @ ?x2 @ p3 @ ?x3 @ r3"
    using s0(3) s1(3) s2(3) s3(3) by simp
  have seps: "is_sep ?x0" "is_sep ?x1" "is_sep ?x2" "is_sep ?x3"
    using s0 s1 s2 s3 by (simp_all add: is_sep_iff)
  have nos: "\<not> has_sep (p0 @ take 2 ?x0)" "\<not> has_sep (p1 @ take 2 ?x1)"
            "\<not> has_sep (p2 @ take 2 ?x2)" "\<not> has_sep (p3 @ take 2 ?x3)"
    using s0(4) s1(4) s2(4) s3(4) by (simp_all add: numeral_2_eq_2)
  have info: "info = \<lparr> bid_number = strip p0, initials = strip p1, bid_date = strip p2,
                   customer = strip p3, bid_name = strip r3, folder = s \<rparr>"
    using some f(5) by (simp add: parse_bid_folder_name_def Let_def)
  show "\<exists>p0 x0 p1 x1 p2 x2 p3 x3 p4.
          s = p0 @ x0 @ p1 @ x1 @ p2 @ x2 @ p3 @ x3 @ p4 \<and>
          is_sep x0 \<and> \<not> has_sep (p0 @ take 2 x0) \<and>
          is_sep x1 \<and> \<not> has_sep (p1 @ take 2 x1) \<and>
          is_sep x2 \<and> \<not> has_sep (p2 @ take 2 x2) \<and>
          is_sep x3 \<and> \<not> has_sep (p3 @ take 2 x3) \<and>
          info = \<lparr> bid_number = strip p0, initials = strip p1, bid_date = strip p2,
                   customer = strip p3, bid_name = strip p4, folder = s \<rparr>"
    using eq seps nos info by blast
qed

lemmas strip_defs = strip_def lstrip_def rstrip_def is_space_def code_point_def Let_def

text \<open>A bid name that holds the separator stays whole.\<close>

lemma parse_example:
  "parse_bid_folder_name ''5 - MD - 01-02 - Acme - Lobby - Phase 2''
     = Some \<lparr> bid_number = ''5'', initials = ''MD'', bid_date = ''01-02'', customer = ''Acme'',
              bid_name = ''Lobby - Phase 2'', folder = ''5 - MD - 01-02 - Acme - Lobby - Phase 2'' \<rparr>"
  by (simp add: parse_bid_folder_name_def numeral_eq_Suc strip_defs)

theorem parse_bid_folder_name_cuts_witness:
  "parse_bid_folder_name ''5 - MD - 01-02 - Acme - Lobby - Phase 2'' \<noteq> None \<and>
   (\<exists>p0 x0 p1 x1 p2 x2 p3 x3 p4.
      ''5 - MD - 01-02 - Acme - Lobby - Phase 2'' = p0 @ x0 @ p1 @ x1 @ p2 @ x2 @ p3 @ x3 @ p4 \<and>
      is_sep x0 \<and> is_sep x1 \<and> is_sep x2 \<and> is_sep x3 \<and>
      ''Lobby - Phase 2'' = strip p4)"
proof -
  let ?s = "''5 - MD - 01-02 - Acme - Lobby - Phase 2''"
  from parse_bid_folder_name_cuts [of ?s, THEN conjunct2, rule_format, OF parse_example]
  obtain p0 x0 p1 x1 p2 x2 p3 x3 p4 where
    d: "?s = p0 @ x0 @ p1 @ x1 @ p2 @ x2 @ p3 @ x3 @ p4"
       "is_sep x0" "is_sep x1" "is_sep x2" "is_sep x3"
    and i: "\<lparr> bid_number = ''5'', initials = ''MD'', bid_date = ''01-02'', customer = ''Acme'',
              bid_name = ''Lobby - Phase 2'', folder = ?s \<rparr>
          = \<lparr> bid_number = strip p0, initials = strip p1, bid_date = strip p2,
              customer = strip p3, bid_name = strip p4, folder = ?s \<rparr>"
    by blast
  from i have "''Lobby - Phase 2'' = strip p4" by simp
  then show ?thesis using d parse_example by blast
qed

text \<open>
  The claim as worded fails on a name whose fields are set apart by tab, dash, tab: it
  holds no space-dash-space at all, so a split on that exact text leaves one part and the
  claim has the result null; the code finds four separators and returns a record.
\<close>

theorem parse_bid_folder_name_counterexample:
  "parse_bid_folder_name
     (''5'' @ [CHR 0x09] @ ''-'' @ [CHR 0x09] @ ''MD'' @ [CHR 0x09] @ ''-'' @ [CHR 0x09] @ ''01-02''
      @ [CHR 0x09] @ ''-'' @ [CHR 0x09] @ ''Acme'' @ [CHR 0x09] @ ''-'' @ [CHR 0x09] @ ''Lobby'') \<noteq> None
   \<and> \<not> sublist '' - ''
     (''5'' @ [CHR 0x09] @ ''-'' @ [CHR 0x09] @ ''MD'' @ [CHR 0x09] @ ''-'' @ [CHR 0x09] @ ''01-02''
      @ [CHR 0x09] @ ''-'' @ [CHR 0x09] @ ''Acme'' @ [CHR 0x09] @ ''-'' @ [CHR 0x09] @ ''Lobby'')"
  by (simp add: parse_bid_folder_name_def numeral_eq_Suc strip_defs sublist_code)

section \<open>Proofs: sanitising, and the round trip of the folder name\<close>


lemma space_is_space [simp]: "is_space CHR '' ''"
  by (simp add: is_space_def code_point_def)

lemma dash_not_space [simp]: "\<not> is_space CHR ''-''"
  by (simp add: is_space_def code_point_def)

lemma rstrip_Nil [simp]: "rstrip [] = []"
  by (simp add: rstrip_def)

lemma rstrip_eq_Nil: "rstrip s = [] \<longleftrightarrow> (\<forall>c\<in>set s. is_space c)"
  by (simp add: rstrip_def dropWhile_eq_Nil_conv)

lemma rstrip_append:
  "rstrip (xs @ ys) = (if \<forall>c\<in>set ys. is_space c then rstrip xs else xs @ rstrip ys)"
  by (simp add: rstrip_def dropWhile_append)

lemma rstrip_id: "s \<noteq> [] \<Longrightarrow> \<not> is_space (last s) \<Longrightarrow> rstrip s = s"
  by (cases s rule: rev_cases) (simp_all add: rstrip_def)

lemma words_of_lstrip: "words_of (dropWhile is_space s) = words_of s"
  by (induction s) simp_all

lemma words_of_space_sep:
  "is_space d \<Longrightarrow> words_of (a @ d # b) = words_of a @ words_of b"
proof (induction a rule: words_of.induct)
  case 1
  then show ?case by simp
next
  case (2 c cs)
  show ?case
  proof (cases "is_space c")
    case True
    then show ?thesis using 2 by simp
  next
    case False
    have t: "takeWhile (\<lambda>x. \<not> is_space x) (cs @ d # b) = takeWhile (\<lambda>x. \<not> is_space x) cs"
      using \<open>is_space d\<close> by (simp add: takeWhile_tail)
    have dr: "dropWhile (\<lambda>x. \<not> is_space x) (cs @ d # b) = dropWhile (\<lambda>x. \<not> is_space x) cs @ d # b"
      using \<open>is_space d\<close> by (simp add: dropWhile_append3)
    show ?thesis using False 2 t dr by simp
  qed
qed

lemma words_of_sep: "words_of (a @ '' - '' @ b) = words_of a @ [''-''] @ words_of b"
proof -
  have "words_of (a @ CHR '' '' # (CHR ''-'' # CHR '' '' # b)) = words_of a @ words_of (CHR ''-'' # CHR '' '' # b)"
    by (rule words_of_space_sep) simp
  then show ?thesis by simp
qed

lemma unwords_append:
  "xs \<noteq> [] \<Longrightarrow> ys \<noteq> [] \<Longrightarrow> unwords (xs @ ys) = unwords xs @ CHR '' '' # unwords ys"
proof (induction xs rule: unwords.induct)
  case 1
  then show ?case by simp
next
  case (2 w)
  then show ?case by (cases ys) simp_all
next
  case (3 w v ws)
  then show ?case by simp
qed

lemma words_of_nonempty: "w \<in> set (words_of s) \<Longrightarrow> w \<noteq> []"
  by (induction s rule: words_of.induct) (auto split: if_splits)

lemma words_of_no_space: "w \<in> set (words_of s) \<Longrightarrow> c \<in> set w \<Longrightarrow> \<not> is_space c"
  by (induction s rule: words_of.induct) (auto split: if_splits dest: set_takeWhileD)

lemma unwords_eq_Nil: "(\<forall>w\<in>set ws. w \<noteq> []) \<Longrightarrow> unwords ws = [] \<longleftrightarrow> ws = []"
  by (induction ws rule: unwords.induct) auto

lemma collapse_ws_nonspace_prefix:
  "(\<forall>c\<in>set w. \<not> is_space c) \<Longrightarrow> collapse_ws (w @ r) = w @ collapse_ws r"
  by (induction w) simp_all

lemma collapse_ws_eq_Nil [simp]: "collapse_ws s = [] \<longleftrightarrow> s = []"
  by (cases s) simp_all

lemma lstrip_collapse_ws_id:
  "t = [] \<or> \<not> is_space (hd t) \<Longrightarrow> dropWhile is_space (collapse_ws t) = collapse_ws t"
  by (cases t) auto

lemma lstrip_collapse_ws: "lstrip (collapse_ws s) = collapse_ws (lstrip s)"
proof (cases s)
  case Nil
  then show ?thesis by (simp add: lstrip_def)
next
  case (Cons c cs)
  show ?thesis
  proof (cases "is_space c")
    case False
    then show ?thesis using Cons by (simp add: lstrip_def)
  next
    case True
    define t where "t = dropWhile is_space cs"
    have "t = [] \<or> \<not> is_space (hd t)" unfolding t_def by (metis hd_dropWhile)
    then have "dropWhile is_space (collapse_ws t) = collapse_ws t"
      by (rule lstrip_collapse_ws_id)
    then show ?thesis using Cons True by (simp add: lstrip_def t_def)
  qed
qed

lemma rstrip_collapse_ws: "rstrip (collapse_ws (lstrip s)) = unwords (words_of s)"
proof (induction s rule: words_of.induct)
  case 1
  then show ?case by (simp add: lstrip_def)
next
  case (2 c cs)
  show ?case
  proof (cases "is_space c")
    case True
    then show ?thesis using "2.IH"(1) by (simp add: lstrip_def)
  next
    case nsp: False
    define w where "w = c # takeWhile (\<lambda>x. \<not> is_space x) cs"
    define r where "r = dropWhile (\<lambda>x. \<not> is_space x) cs"
    define X where "X = collapse_ws (lstrip r)"
    have wns: "\<forall>x\<in>set w. \<not> is_space x" unfolding w_def using nsp by (auto dest: set_takeWhileD)
    have wne: "w \<noteq> []" unfolding w_def by simp
    have wr: "c # cs = w @ r" unfolding w_def r_def by simp
    have "lstrip (c # cs) = c # cs" using nsp by (simp add: lstrip_def)
    then have col: "collapse_ws (lstrip (c # cs)) = w @ collapse_ws r"
      using collapse_ws_nonspace_prefix [OF wns, of r] wr by simp
    have wo: "words_of (c # cs) = w # words_of r" unfolding w_def r_def using nsp by simp
    have "\<not> is_space (last w)" using wns wne last_in_set by blast
    then have wid: "rstrip w = w" using wne by (simp add: rstrip_id)
    have ih: "rstrip X = unwords (words_of r)"
      unfolding X_def r_def using "2.IH"(2) [OF nsp] .
    have xs: "(\<forall>x\<in>set X. is_space x) \<longleftrightarrow> X = []"
    proof -
      have "lstrip r = [] \<or> \<not> is_space (hd (lstrip r))" unfolding lstrip_def by (metis hd_dropWhile)
      then show ?thesis unfolding X_def by (cases "lstrip r") auto
    qed
    show ?thesis
    proof (cases r)
      case Nil
      then show ?thesis using col wo wid by simp
    next
      case (Cons d ds)
      then have spd: "is_space d" unfolding r_def by (metis hd_dropWhile list.distinct(1) list.sel(1))
      have cr: "collapse_ws r = CHR '' '' # X" unfolding X_def using Cons spd by (simp add: lstrip_def)
      show ?thesis
      proof (cases "X = []")
        case True
        then have "unwords (words_of r) = []" using ih by simp
        then have "words_of r = []"
          using unwords_eq_Nil [of "words_of r"] words_of_nonempty by blast
        then show ?thesis using col cr wo wid True by (simp add: rstrip_append)
      next
        case False
        then have nall: "\<not> (\<forall>x\<in>set X. is_space x)" using xs by simp
        then have "rstrip X \<noteq> []" by (simp add: rstrip_eq_Nil)
        then have "words_of r \<noteq> []" using ih by auto
        then obtain v vs where v: "words_of r = v # vs" by (cases "words_of r") auto
        have "rstrip (CHR '' '' # X) = CHR '' '' # rstrip X"
          using nall rstrip_append [of "[CHR '' '']" X] by auto
        moreover have "rstrip (w @ CHR '' '' # X) = w @ rstrip (CHR '' '' # X)"
          using nall rstrip_append [of w "CHR '' '' # X"] by auto
        ultimately have "rstrip (w @ CHR '' '' # X) = w @ CHR '' '' # rstrip X" by simp
        then show ?thesis using col cr wo ih v by simp
      qed
    qed
  qed
qed

lemma strip_collapse_ws: "strip (collapse_ws s) = unwords (words_of s)"
  by (simp add: strip_def lstrip_collapse_ws rstrip_collapse_ws)

lemma sanitize_name_words: "sanitize_name (Some v) = unwords (words_of (replace_illegal v))"
  by (simp add: strip_collapse_ws)


lemma replace_illegal_append [simp]:
  "replace_illegal (a @ b) = replace_illegal a @ replace_illegal b"
  by (simp add: replace_illegal_def)

lemma replace_illegal_sep [simp]: "replace_illegal '' - '' = '' - ''"
  by (simp add: replace_illegal_def is_illegal_def)

lemma words_of_unwords_nonempty:
  "unwords (words_of v) \<noteq> [] \<longleftrightarrow> words_of v \<noteq> []"
  using unwords_eq_Nil [of "words_of v"] words_of_nonempty by blast

lemma sanitize_name_join:
  assumes "sanitize_name (Some a) \<noteq> []" "sanitize_name (Some b) \<noteq> []"
  shows "sanitize_name (Some (a @ '' - '' @ b))
           = sanitize_name (Some a) @ '' - '' @ sanitize_name (Some b)"
proof -
  let ?A = "words_of (replace_illegal a)" and ?B = "words_of (replace_illegal b)"
  have ne: "?A \<noteq> []" "?B \<noteq> []"
    using assms [unfolded sanitize_name_words words_of_unwords_nonempty] by blast+
  have "sanitize_name (Some (a @ '' - '' @ b)) = unwords (?A @ [''-''] @ ?B)"
    by (simp only: sanitize_name_words replace_illegal_append replace_illegal_sep words_of_sep)
  also have "\<dots> = unwords ?A @ CHR '' '' # unwords ([''-''] @ ?B)"
    using ne by (simp add: unwords_append)
  also have "unwords ([''-''] @ ?B) = ''-'' @ CHR '' '' # unwords ?B"
    using ne unwords_append [of "[''-'']" ?B] by simp
  finally show ?thesis by (simp add: sanitize_name_words del: sanitize_name.simps)
qed

lemma unwords_spaces:
  "(\<forall>w\<in>set ws. \<forall>c\<in>set w. \<not> is_space c) \<Longrightarrow> c \<in> set (unwords ws) \<Longrightarrow> is_space c \<Longrightarrow> c = CHR '' ''"
  by (induction ws rule: unwords.induct) auto

lemma sanitize_name_spaces:
  "c \<in> set (sanitize_name (Some v)) \<Longrightarrow> is_space c \<Longrightarrow> c = CHR '' ''"
  unfolding sanitize_name_words
  by (rule unwords_spaces [of "words_of (replace_illegal v)"]) (auto dest: words_of_no_space)

lemma unwords_hd:
  "ws \<noteq> [] \<Longrightarrow> (\<forall>w\<in>set ws. w \<noteq> []) \<Longrightarrow> hd (unwords ws) = hd (hd ws)"
  by (induction ws rule: unwords.induct) auto

lemma unwords_last:
  "ws \<noteq> [] \<Longrightarrow> (\<forall>w\<in>set ws. w \<noteq> []) \<Longrightarrow> last (unwords ws) = last (last ws)"
proof (induction ws rule: unwords.induct)
  case (3 w v ws)
  then have "unwords (v # ws) \<noteq> []" using unwords_eq_Nil [of "v # ws"] by auto
  then show ?case using 3 by simp
qed auto

lemma strip_unwords:
  assumes "\<forall>w\<in>set ws. w \<noteq> [] \<and> (\<forall>c\<in>set w. \<not> is_space c)"
  shows "strip (unwords ws) = unwords ws"
proof (cases "ws = []")
  case True
  then show ?thesis by (simp add: strip_def lstrip_def)
next
  case False
  have ne: "\<forall>w\<in>set ws. w \<noteq> []" using assms by blast
  then have une: "unwords ws \<noteq> []" using False unwords_eq_Nil [of ws] by blast
  have "hd ws \<in> set ws" "last ws \<in> set ws" using False by simp_all
  then have "\<not> is_space (hd (hd ws))" "\<not> is_space (last (last ws))"
    using assms by (metis hd_in_set, metis last_in_set)
  then have h: "\<not> is_space (hd (unwords ws))" and l: "\<not> is_space (last (unwords ws))"
    using False ne by (simp_all add: unwords_hd unwords_last)
  have "lstrip (unwords ws) = unwords ws"
    using h une by (cases "unwords ws") (simp_all add: lstrip_def)
  then show ?thesis using l une by (simp add: strip_def rstrip_id)
qed

lemma strip_sanitize_name: "strip (sanitize_name (Some v)) = sanitize_name (Some v)"
  unfolding sanitize_name_words
  by (rule strip_unwords) (auto dest: words_of_no_space words_of_nonempty)



lemma leftmost_le:
  assumes "s = p @ x @ r" "is_sep x" "\<not> has_sep (p @ take 2 x)"
    and "s = p' @ x' @ r'" "is_sep x'"
  shows "length p \<le> length p'"
proof (rule ccontr)
  assume "\<not> length p \<le> length p'"
  then have lt: "length p' < length p" by simp
  have l3: "length x' = 3" "length x = 3" using assms by (auto dest: is_sep_length)
  have "take (length p + 2) s = p @ take 2 x" using assms(1) l3 by simp
  moreover have "take (length p + 2) s = p' @ x' @ take (length p + 2 - length p' - 3) r'"
    using assms(4) lt l3 by simp
  ultimately have "p @ take 2 x = p' @ x' @ take (length p + 2 - length p' - 3) r'" by simp
  then have "has_sep (p @ take 2 x)" unfolding has_sep_def using assms(5) by blast
  then show False using assms(3) by simp
qed

lemma find_sep_at:
  assumes "is_space a" "is_space c" "\<not> has_sep (p @ [a, CHR ''-''])"
  shows "find_sep (p @ [a, CHR ''-'', c] @ r) = Some (p, r)"
proof -
  let ?s = "p @ [a, CHR ''-'', c] @ r"
  have sep: "is_sep [a, CHR ''-'', c]" using assms by (simp add: is_sep_iff)
  then have "has_sep ?s" unfolding has_sep_def by blast
  then obtain p' r' where f: "find_sep ?s = Some (p', r')"
    using find_sep_None [of ?s] by (cases "find_sep ?s") auto
  from find_sep_Some [OF f] obtain a' c' where
    d: "is_space a'" "is_space c'" "?s = p' @ [a', CHR ''-'', c'] @ r'"
       "\<not> has_sep (p' @ [a', CHR ''-''])" by blast
  have sep': "is_sep [a', CHR ''-'', c']" using d by (simp add: is_sep_iff)
  have n: "\<not> has_sep (p @ take 2 [a, CHR ''-'', c])" using assms(3) by (simp add: numeral_2_eq_2)
  have n': "\<not> has_sep (p' @ take 2 [a', CHR ''-'', c'])" using d(4) by (simp add: numeral_2_eq_2)
  have "length p \<le> length p'"
    by (rule leftmost_le [OF refl sep n d(3) sep'])
  moreover have "length p' \<le> length p"
    by (rule leftmost_le [OF d(3) sep' n' refl sep])
  ultimately have len: "length p = length p'" by simp
  have "p = p' \<and> [a, CHR ''-'', c] @ r = [a', CHR ''-'', c'] @ r'"
    using d(3) len append_eq_append_conv [of p p' "[a, CHR ''-'', c] @ r" "[a', CHR ''-'', c'] @ r'"]
    by blast
  then have pp: "p = p'" and "r = r'" by simp_all
  then show ?thesis using f pp by simp
qed

lemma no_sep_before:
  assumes sp: "\<forall>c\<in>set S. is_space c \<longrightarrow> c = CHR '' ''"
    and ns: "\<not> sublist '' - '' S" and nf: "\<not> suffix '' -'' S"
  shows "\<not> has_sep (S @ '' -'')"
proof
  assume "has_sep (S @ '' -'')"
  then obtain p x r where d: "S @ '' -'' = p @ x @ r" "is_sep x" by (auto simp: has_sep_def)
  then obtain a c where x: "x = [a, CHR ''-'', c]" "is_space a" "is_space c"
    by (auto simp: is_sep_iff)
  have only: "y = CHR '' ''" if "y \<in> set (S @ '' -'')" "is_space y" for y
  proof -
    from that(1) have "y \<in> set S \<or> y = CHR '' '' \<or> y = CHR ''-''" by auto
    then show ?thesis using sp that(2) dash_not_space by blast
  qed
  have "a \<in> set (p @ x @ r)" "c \<in> set (p @ x @ r)" using x(1) by simp_all
  then have "a \<in> set (S @ '' -'')" "c \<in> set (S @ '' -'')" using d(1) by simp_all
  then have "a = CHR '' ''" "c = CHR '' ''" using only x(2,3) by blast+
  then have e: "S @ '' -'' = p @ '' - '' @ r" using d(1) x(1) by simp
  show False
  proof (cases r rule: rev_cases)
    case Nil
    then have "last (S @ '' -'') = last (p @ '' - '')" using e by simp
    then show False by simp
  next
    case (snoc r1 z)
    have "(S @ '' '') @ ''-'' = (p @ '' - '' @ r1) @ [z]" using e snoc by simp
    then have e1: "S @ '' '' = p @ '' - '' @ r1" by (simp only: append1_eq_conv)
    show False
    proof (cases r1 rule: rev_cases)
      case Nil
      then have "S @ '' '' = (p @ '' -'') @ '' ''" using e1 by simp
      then have "S = p @ '' -''" by (simp only: append1_eq_conv)
      then have "suffix '' -'' S" unfolding suffix_def by blast
      then show False using nf by simp
    next
      case (snoc r2 z')
      then have "S @ '' '' = (p @ '' - '' @ r2) @ [z']" using e1 by simp
      then have "S = p @ '' - '' @ r2" by (simp only: append1_eq_conv)
      then have "sublist '' - '' S" unfolding sublist_def by blast
      then show False using ns by simp
    qed
  qed
qed


lemma digit_char_digit: "d < 10 \<Longrightarrow> is_digit (digit_char d)"
proof -
  assume "d < 10"
  then have "d \<in> {0, 1, 2, 3, 4, 5, 6, 7, 8, 9}" by auto
  then show ?thesis
    by (auto simp: digit_char_def is_digit_def code_point_def)
qed

lemma str_nat_digits: "str_nat n \<noteq> [] \<and> (\<forall>c\<in>set (str_nat n). is_digit c)"
proof (induction n rule: str_nat.induct)
  case (1 n)
  show ?case
  proof (cases "n < 10")
    case True
    then show ?thesis by (subst (1 2) str_nat.simps) (simp add: digit_char_digit)
  next
    case False
    then show ?thesis using 1 by (subst (1 2) str_nat.simps) (simp add: digit_char_digit)
  qed
qed

lemma is_digit_plain: "is_digit c \<Longrightarrow> \<not> is_space c \<and> \<not> is_illegal c"
  by (auto simp: is_digit_def is_space_def is_illegal_def code_point_def Let_def)

lemma dash_plain: "\<not> is_space CHR ''-'' \<and> \<not> is_illegal CHR ''-''"
  by (simp add: is_space_def is_illegal_def code_point_def)

lemma str_int_plain:
  "str_int n \<noteq> [] \<and> (\<forall>c\<in>set (str_int n). \<not> is_space c \<and> \<not> is_illegal c)"
  using str_nat_digits is_digit_plain dash_plain by (auto simp: str_int_def)

lemma replace_illegal_id: "(\<forall>c\<in>set v. \<not> is_illegal c) \<Longrightarrow> replace_illegal v = v"
  by (induction v) (simp_all add: replace_illegal_def)

lemma words_of_single:
  assumes "v \<noteq> []" "\<forall>c\<in>set v. \<not> is_space c"
  shows "words_of v = [v]"
proof -
  obtain c cs where v: "v = c # cs" using assms(1) by (cases v) auto
  have t: "takeWhile (\<lambda>x. \<not> is_space x) cs = cs" using assms(2) v by (simp add: takeWhile_eq_all_conv)
  have d: "dropWhile (\<lambda>x. \<not> is_space x) cs = []" using assms(2) v by (simp add: dropWhile_eq_Nil_conv)
  have "\<not> is_space c" using assms(2) v by simp
  then show ?thesis unfolding v by (simp add: t d)
qed

lemma sanitize_name_plain:
  "v \<noteq> [] \<Longrightarrow> (\<forall>c\<in>set v. \<not> is_space c \<and> \<not> is_illegal c) \<Longrightarrow> sanitize_name (Some v) = v"
  by (simp add: sanitize_name_words replace_illegal_id words_of_single del: sanitize_name.simps)

lemma sanitize_name_str_int: "sanitize_name (Some (str_int n)) = str_int n"
  using str_int_plain [of n] by (intro sanitize_name_plain) auto

lemma no_space_no_sep:
  assumes "\<forall>c\<in>set S. \<not> is_space c"
  shows "\<not> sublist '' - '' S" "\<not> suffix '' -'' S"
proof -
  show "\<not> sublist '' - '' S"
  proof
    assume "sublist '' - '' S"
    then obtain p r where "S = p @ '' - '' @ r" by (auto simp: sublist_def)
    then have "CHR '' '' \<in> set S" by simp
    then show False using assms space_is_space by blast
  qed
  show "\<not> suffix '' -'' S"
  proof
    assume "suffix '' -'' S"
    then obtain p where "S = p @ '' -''" by (auto simp: suffix_def)
    then have "CHR '' '' \<in> set S" by simp
    then show False using assms space_is_space by blast
  qed
qed

lemma find_sep_sanitized:
  assumes "\<not> sublist '' - '' (sanitize_name (Some v))" "\<not> suffix '' -'' (sanitize_name (Some v))"
  shows "find_sep (sanitize_name (Some v) @ '' - '' @ r) = Some (sanitize_name (Some v), r)"
proof -
  let ?S = "sanitize_name (Some v)"
  have "\<forall>c\<in>set ?S. is_space c \<longrightarrow> c = CHR '' ''"
    using sanitize_name_spaces by blast
  then have "\<not> has_sep (?S @ '' -'')" using assms by (rule no_sep_before)
  then have "\<not> has_sep (?S @ [CHR '' '', CHR ''-''])" by simp
  then have "find_sep (?S @ [CHR '' '', CHR ''-'', CHR '' ''] @ r) = Some (?S, r)"
    by (intro find_sep_at) simp_all
  then show ?thesis by simp
qed

lemma re_split_five:
  assumes "find_sep s0 = Some (p0, s1)" "find_sep s1 = Some (p1, s2)"
          "find_sep s2 = Some (p2, s3)" "find_sep s3 = Some (p3, s4)"
  shows "re_split 4 s0 = [p0, p1, p2, p3, s4]"
  using assms by (simp add: numeral_eq_Suc)


text \<open>
  Claim C2, as the code has it. Take any bid number and any four texts for initials, due
  date, customer and bid name, such that each of the four is not empty once sanitised,
  and the sanitised initials, due date and customer neither hold space-dash-space nor
  end in space-dash. Then decoding the folder name that \<open>build_bid_folder_name\<close> makes
  gives back the five sanitised fields, one by one; the bid number is its decimal text,
  which sanitising leaves as it is (\<open>sanitize_name_str_int\<close>). Illegal characters in the
  fields do no harm, since both sides sanitise them away, and the bid name may hold the
  separator.
\<close>

theorem parse_build_round_trip:
  assumes ne: "sanitize_name (Some inits) \<noteq> []" "sanitize_name (Some date) \<noteq> []"
              "sanitize_name (Some cust) \<noteq> []" "sanitize_name (Some name) \<noteq> []"
    and i: "\<not> sublist '' - '' (sanitize_name (Some inits))" "\<not> suffix '' -'' (sanitize_name (Some inits))"
    and d: "\<not> sublist '' - '' (sanitize_name (Some date))" "\<not> suffix '' -'' (sanitize_name (Some date))"
    and c: "\<not> sublist '' - '' (sanitize_name (Some cust))" "\<not> suffix '' -'' (sanitize_name (Some cust))"
  shows "parse_bid_folder_name (build_bid_folder_name number inits date cust name) =
           Some \<lparr> bid_number = sanitize_name (Some (str_int number)),
                   initials = sanitize_name (Some inits),
                   bid_date = sanitize_name (Some date),
                   customer = sanitize_name (Some cust),
                   bid_name = sanitize_name (Some name),
                   folder = build_bid_folder_name number inits date cust name \<rparr>"
proof -
  define S1 where "S1 = sanitize_name (Some (str_int number))"
  define S2 where "S2 = sanitize_name (Some inits)"
  define S3 where "S3 = sanitize_name (Some date)"
  define S4 where "S4 = sanitize_name (Some cust)"
  define S5 where "S5 = sanitize_name (Some name)"
  have s1: "S1 = str_int number" unfolding S1_def by (rule sanitize_name_str_int)
  have ne1: "S1 \<noteq> []" using s1 str_int_plain by simp
  have x4: "sanitize_name (Some (cust @ '' - '' @ name)) = S4 @ '' - '' @ S5"
    unfolding S4_def S5_def using ne(3,4) by (rule sanitize_name_join)
  have x3: "sanitize_name (Some (date @ '' - '' @ cust @ '' - '' @ name)) = S3 @ '' - '' @ S4 @ '' - '' @ S5"
    using sanitize_name_join [of date "cust @ '' - '' @ name"] ne(2,3) x4
    unfolding S3_def S4_def by auto
  have x2: "sanitize_name (Some (inits @ '' - '' @ date @ '' - '' @ cust @ '' - '' @ name))
      = S2 @ '' - '' @ S3 @ '' - '' @ S4 @ '' - '' @ S5"
    using sanitize_name_join [of inits "date @ '' - '' @ cust @ '' - '' @ name"] ne(1,2) x3
    unfolding S2_def S3_def by auto
  have x1: "build_bid_folder_name number inits date cust name
      = S1 @ '' - '' @ S2 @ '' - '' @ S3 @ '' - '' @ S4 @ '' - '' @ S5"
    using sanitize_name_join [of "str_int number" "inits @ '' - '' @ date @ '' - '' @ cust @ '' - '' @ name"]
      ne1 ne(1) x2
    unfolding build_bid_folder_name_def S1_def S2_def by auto
  have plain: "\<forall>c\<in>set (str_int number). \<not> is_space c" using str_int_plain by blast
  have f1: "find_sep (S1 @ '' - '' @ S2 @ '' - '' @ S3 @ '' - '' @ S4 @ '' - '' @ S5)
      = Some (S1, S2 @ '' - '' @ S3 @ '' - '' @ S4 @ '' - '' @ S5)"
    unfolding S1_def
    by (rule find_sep_sanitized)
       (simp_all only: sanitize_name_str_int no_space_no_sep [OF plain] not_False_eq_True)
  have f2: "find_sep (S2 @ '' - '' @ S3 @ '' - '' @ S4 @ '' - '' @ S5)
      = Some (S2, S3 @ '' - '' @ S4 @ '' - '' @ S5)"
    unfolding S2_def by (rule find_sep_sanitized [OF i])
  have f3: "find_sep (S3 @ '' - '' @ S4 @ '' - '' @ S5) = Some (S3, S4 @ '' - '' @ S5)"
    unfolding S3_def by (rule find_sep_sanitized [OF d])
  have f4: "find_sep (S4 @ '' - '' @ S5) = Some (S4, S5)"
    unfolding S4_def by (rule find_sep_sanitized [OF c])
  have parts: "re_split 4 (build_bid_folder_name number inits date cust name) = [S1, S2, S3, S4, S5]"
    unfolding x1 by (rule re_split_five [OF f1 f2 f3 f4])
  show ?thesis
    unfolding parse_bid_folder_name_def parts
    by (simp add: strip_sanitize_name Let_def S1_def S2_def S3_def S4_def S5_def
        del: sanitize_name.simps)
qed

lemmas sanitize_eval =
  build_bid_folder_name_def str_int_def str_nat.simps digit_char_def replace_illegal_def
  is_illegal_def strip_def lstrip_def rstrip_def is_space_def code_point_def Let_def

theorem parse_build_round_trip_witness:
  "parse_bid_folder_name (build_bid_folder_name 5 ''MD'' ''01-02'' ''Acme/West  Co'' ''Lobby - Phase 2'') =
     Some \<lparr> bid_number = ''5'', initials = ''MD'', bid_date = ''01-02'',
             customer = ''Acme West Co'', bid_name = ''Lobby - Phase 2'',
             folder = ''5 - MD - 01-02 - Acme West Co - Lobby - Phase 2'' \<rparr>"
  using parse_build_round_trip [of "''MD''" "''01-02''" "''Acme/West  Co''" "''Lobby - Phase 2''" 5]
  by (simp add: sanitize_eval sublist_code suffix_to_prefix)

text \<open>
  The claim as worded fails for the customer \<open>Acme -\<close>: no field holds space-dash-space
  or an illegal character, yet the folder name reads \<open>... - Acme - - Lobby\<close>, and decoding
  gives the customer \<open>Acme\<close>, not the sanitised field \<open>Acme -\<close>.
\<close>

theorem parse_build_counterexample:
  "\<not> sublist '' - '' ''MD'' \<and> \<not> sublist '' - '' ''01-02'' \<and> \<not> sublist '' - '' ''Acme -'' \<and>
   \<not> sublist '' - '' ''Lobby'' \<and>
   \<not> list_ex is_illegal (''MD'' @ ''01-02'' @ ''Acme -'' @ ''Lobby'') \<and>
   map_option customer
     (parse_bid_folder_name (build_bid_folder_name 5 ''MD'' ''01-02'' ''Acme -'' ''Lobby''))
     = Some ''Acme'' \<and>
   sanitize_name (Some ''Acme -'') = ''Acme -''"
  by (simp add: sanitize_eval sublist_code parse_bid_folder_name_def numeral_eq_Suc)

section \<open>Proofs: the header row\<close>


lemma enumerate_defaults_eq:
  "enumerate_defaults =
     [(1, ''Bid Folder''), (2, ''Bid Number''), (3, ''Estimator''), (4, ''Bid Due Date''),
      (5, ''Customer/GC''), (6, ''Bid Name''), (7, ''Proposal Date''), (8, ''Proposal Amount''),
      (9, ''Bid Status'')]"
proof -
  have "[1..<Suc 9] = [1, 2, 3, 4, 5, 6, 7, 8, 9 :: nat]"
    by (simp add: upt_rec)
  then show ?thesis by (simp add: enumerate_defaults_def HEADER_DEFAULTS_def)
qed

lemma write_defaults_cells:
  "cells (write_defaults ws) (r, c) =
     (if r = 1 \<and> 1 \<le> c \<and> c \<le> 9 then Some (StrV (HEADER_DEFAULTS ! (c - 1))) else cells ws (r, c))"
proof -
  have "c = 1 \<or> c = 2 \<or> c = 3 \<or> c = 4 \<or> c = 5 \<or> c = 6 \<or> c = 7 \<or> c = 8 \<or> c = 9" if "1 \<le> c" "c \<le> 9"
    using that by arith
  then show ?thesis
    by (auto simp: write_defaults_def enumerate_defaults_eq set_cell_def HEADER_DEFAULTS_def)
qed

lemma write_defaults_max_row: "max_row (write_defaults ws) = max (max_row ws) 1"
  by (simp add: write_defaults_def enumerate_defaults_eq set_cell_def)

lemma index_defaults_apply:
  "index_defaults h k =
     (if k = ''Bid Folder'' then Some 1 else if k = ''Bid Number'' then Some 2
      else if k = ''Estimator'' then Some 3 else if k = ''Bid Due Date'' then Some 4
      else if k = ''Customer/GC'' then Some 5 else if k = ''Bid Name'' then Some 6
      else if k = ''Proposal Date'' then Some 7 else if k = ''Proposal Amount'' then Some 8
      else if k = ''Bid Status'' then Some 9 else h k)"
  by (simp add: index_defaults_def enumerate_defaults_eq)


lemma scan_header_cells:
  "cells (fst (scan_header col st)) (r, c) =
     (if r = 1 \<and> c = col then norm_cell (cells (fst st) (r, c)) else cells (fst st) (r, c))"
  by (cases st) (auto simp: scan_header_def norm_cell_def set_cell_def split: option.splits)

lemma scan_header_flag:
  "snd (snd (scan_header col st)) = (snd (snd st) \<or> \<not> blank_cell (cells (fst st) (1, col)))"
  by (cases st) (auto simp: scan_header_def blank_cell_def split: option.splits)

lemma scan_header_last_row: "get_last_row (fst (scan_header col st)) = get_last_row (fst st)"
  by (cases st) (auto simp: scan_header_def set_cell_def get_last_row_def max_def split: option.splits)

lemma scan_header_max_row:
  "max_row (fst (scan_header col st)) = max_row (fst st) \<or>
   max_row (fst (scan_header col st)) = max (max_row (fst st)) 1"
  by (cases st) (auto simp: scan_header_def set_cell_def split: option.splits)

lemma scan_header_map:
  "fst (snd (scan_header col st)) k =
     (case cells (fst st) (1, col) of
        None \<Rightarrow> fst (snd st) k
      | Some v \<Rightarrow> if truthy v \<and> canonical_of v = k \<and> fst (snd st) k = None then Some col
                  else fst (snd st) k)"
  by (cases st) (auto simp: scan_header_def split: option.splits)

lemma fold_scan_cells:
  "distinct L \<Longrightarrow>
   cells (fst (fold scan_header L st)) (r, c) =
     (if r = 1 \<and> c \<in> set L then norm_cell (cells (fst st) (r, c)) else cells (fst st) (r, c))"
proof (induction L arbitrary: st)
  case Nil
  then show ?case by simp
next
  case (Cons a L)
  then show ?case by (auto simp: scan_header_cells)
qed

lemma fold_scan_flag:
  "distinct L \<Longrightarrow>
   snd (snd (fold scan_header L st)) =
     (snd (snd st) \<or> (\<exists>c\<in>set L. \<not> blank_cell (cells (fst st) (1, c))))"
proof (induction L arbitrary: st)
  case Nil
  then show ?case by simp
next
  case (Cons a L)
  have "cells (fst (scan_header a st)) (1, c) = cells (fst st) (1, c)" if "c \<in> set L" for c
    using that Cons.prems by (auto simp: scan_header_cells)
  then show ?case using Cons by (auto simp: scan_header_flag)
qed

lemma fold_scan_last_row: "get_last_row (fst (fold scan_header L st)) = get_last_row (fst st)"
  by (induction L arbitrary: st) (simp_all add: scan_header_last_row)

lemma fold_scan_map_source:
  "distinct L \<Longrightarrow> fst (snd (fold scan_header L st)) k = Some col \<Longrightarrow>
   fst (snd st) k = Some col \<or>
   (col \<in> set L \<and> (\<exists>v. cells (fst st) (1, col) = Some v \<and> truthy v \<and> canonical_of v = k))"
proof (induction L arbitrary: st)
  case Nil
  then show ?case by simp
next
  case (Cons a L)
  from Cons.prems have d: "distinct L" "a \<notin> set L" by simp_all
  from Cons.IH [OF d(1), of "scan_header a st"] Cons.prems(2)
  have "fst (snd (scan_header a st)) k = Some col \<or>
        (col \<in> set L \<and> (\<exists>v. cells (fst (scan_header a st)) (1, col) = Some v \<and> truthy v \<and> canonical_of v = k))"
    by simp
  then show ?case
  proof
    assume "fst (snd (scan_header a st)) k = Some col"
    then show ?thesis by (auto simp: scan_header_map split: option.splits if_splits)
  next
    assume r: "col \<in> set L \<and> (\<exists>v. cells (fst (scan_header a st)) (1, col) = Some v \<and> truthy v \<and> canonical_of v = k)"
    then have "col \<noteq> a" using d(2) by auto
    then show ?thesis using r by (auto simp: scan_header_cells)
  qed
qed


lemma upt_31_distinct: "distinct [1..<31]" by simp

lemma one_to_nine: "{c::nat. 1 \<le> c \<and> c \<le> 9} = {1, 2, 3, 4, 5, 6, 7, 8, 9}"
  by auto

lemma needs_reorder_iff:
  "needs_reorder ws \<longleftrightarrow> (\<exists>c. 1 \<le> c \<and> c \<le> 9 \<and> cells ws (1, c) \<noteq> Some (StrV (HEADER_DEFAULTS ! (c - 1))))"
proof -
  have "needs_reorder ws \<longleftrightarrow>
      (\<exists>c\<in>{1, 2, 3, 4, 5, 6, 7, 8, 9}. cells ws (1, c) \<noteq> Some (StrV (HEADER_DEFAULTS ! (c - 1))))"
    by (simp add: needs_reorder_def enumerate_defaults_eq HEADER_DEFAULTS_def)
  also have "\<dots> \<longleftrightarrow> (\<exists>c\<in>{c. 1 \<le> c \<and> c \<le> 9}. cells ws (1, c) \<noteq> Some (StrV (HEADER_DEFAULTS ! (c - 1))))"
    by (simp only: one_to_nine)
  finally show ?thesis by auto
qed

lemma ensure_headers_cells:
  "cells (fst (ensure_headers ws)) (r, c) =
     (if r = 1 \<and> 1 \<le> c \<and> c \<le> 9 then Some (StrV (HEADER_DEFAULTS ! (c - 1)))
      else if r = 1 \<and> 10 \<le> c \<and> c \<le> 30 then norm_cell (cells ws (r, c))
      else cells ws (r, c))"
proof -
  define st where "st = fold scan_header [1..<31] (ws, Map.empty, False)"
  have sc: "cells (fst st) (r', c') =
      (if r' = 1 \<and> 1 \<le> c' \<and> c' \<le> 30 then norm_cell (cells ws (r', c')) else cells ws (r', c'))" for r' c'
    unfolding st_def using fold_scan_cells [OF upt_31_distinct, of "(ws, Map.empty, False)" r' c']
    by auto
  obtain w h b where st: "st = (w, h, b)" by (cases st)
  have e: "ensure_headers ws =
      (if \<not> b then (write_defaults w, index_defaults h)
       else ((if needs_reorder w then write_defaults w else w), index_defaults h))"
    using st unfolding ensure_headers_def st_def by simp
  have w: "cells w (r', c') =
      (if r' = 1 \<and> 1 \<le> c' \<and> c' \<le> 30 then norm_cell (cells ws (r', c')) else cells ws (r', c'))" for r' c'
    using sc [of r' c'] st by simp
  show ?thesis
  proof (cases "\<not> b \<or> needs_reorder w")
    case True
    then have "fst (ensure_headers ws) = write_defaults w" using e by auto
    then show ?thesis by (auto simp: write_defaults_cells w)
  next
    case False
    then have f: "fst (ensure_headers ws) = w" using e by auto
    have "cells w (1, c) = Some (StrV (HEADER_DEFAULTS ! (c - 1)))" if "1 \<le> c" "c \<le> 9"
      using False that by (auto simp: needs_reorder_iff)
    then show ?thesis using f by (auto simp: w)
  qed
qed

lemma ensure_headers_last_row: "get_last_row (fst (ensure_headers ws)) = get_last_row ws"
proof -
  define st where "st = fold scan_header [1..<31] (ws, Map.empty, False)"
  have l: "get_last_row (fst st) = get_last_row ws"
    unfolding st_def by (simp add: fold_scan_last_row)
  have wd: "get_last_row (write_defaults w) = get_last_row w" for w
    by (simp add: get_last_row_def write_defaults_max_row max_def)
  obtain w h b where st: "st = (w, h, b)" by (cases st)
  then show ?thesis using l wd [of w]
    unfolding ensure_headers_def st_def [symmetric] by (auto simp: Let_def)
qed

lemma ensure_headers_map:
  "snd (ensure_headers ws) = index_defaults (fst (snd (fold scan_header [1..<31] (ws, Map.empty, False))))"
  unfolding ensure_headers_def by (auto split: prod.splits)

lemma ensure_headers_canonical:
  "map (snd (ensure_headers ws)) HEADER_DEFAULTS = map Some [1, 2, 3, 4, 5, 6, 7, 8, 9]"
  by (simp add: ensure_headers_map index_defaults_apply HEADER_DEFAULTS_def)

lemma ensure_headers_other_key:
  assumes "k \<notin> set HEADER_DEFAULTS" "snd (ensure_headers ws) k = Some col"
  shows "1 \<le> col \<and> col \<le> 30 \<and> (\<exists>v. cells ws (1, col) = Some v \<and> truthy v \<and> canonical_of v = k)"
proof -
  have "snd (ensure_headers ws) k = fst (snd (fold scan_header [1..<31] (ws, Map.empty, False))) k"
    using assms(1) by (simp add: ensure_headers_map index_defaults_apply HEADER_DEFAULTS_def)
  then have "fst (snd (fold scan_header [1..<31] (ws, Map.empty, False))) k = Some col"
    using assms(2) by simp
  from fold_scan_map_source [OF upt_31_distinct this] show ?thesis by auto
qed


lemma legacy_truthy:
  "legacy_header_map l = Some t \<Longrightarrow> truthy (StrV l) \<and> canonical_of (StrV l) = t"
  by (auto simp: legacy_header_map_def canonical_of_def split: if_splits)

lemma norm_cell_blank: "blank_cell x \<Longrightarrow> norm_cell x = x"
  by (auto simp: blank_cell_def norm_cell_def split: option.splits)

lemma ensure_headers_blank_dom:
  assumes "\<forall>c\<in>{1..30}. blank_cell (cells ws (1, c))"
  shows "dom (snd (ensure_headers ws)) = set HEADER_DEFAULTS"
proof -
  have n: "snd (ensure_headers ws) k = None" if "k \<notin> set HEADER_DEFAULTS" for k
  proof (rule ccontr)
    assume "snd (ensure_headers ws) k \<noteq> None"
    then obtain col where "snd (ensure_headers ws) k = Some col" by auto
    from ensure_headers_other_key [OF that this] obtain v where
      v: "1 \<le> col" "col \<le> 30" "cells ws (1, col) = Some v" "truthy v" by auto
    have "blank_cell (cells ws (1, col))" using assms v(1,2) by simp
    then show False using v(3,4) by (simp add: blank_cell_def)
  qed
  have y: "snd (ensure_headers ws) k \<noteq> None" if "k \<in> set HEADER_DEFAULTS" for k
    using that by (auto simp: ensure_headers_map index_defaults_apply HEADER_DEFAULTS_def)
  show ?thesis
  proof (rule set_eqI)
    fix k
    show "k \<in> dom (snd (ensure_headers ws)) \<longleftrightarrow> k \<in> set HEADER_DEFAULTS"
      using n [of k] y [of k] by (cases "k \<in> set HEADER_DEFAULTS") (simp_all add: dom_def)
  qed
qed

text \<open>
  Claim C4, as the code has it. For every worksheet: the mapping that \<open>ensure_headers\<close>
  returns gives the nine canonical headers the columns 1 to 9, in order; afterwards
  columns 1 to 9 of row 1 hold the nine canonical headers, in order. If no cell in
  columns 1 to 30 of row 1 holds a value that counts as true (an empty header row is
  the case with no values at all), no other cell of the sheet changes and the mapping
  has exactly the nine canonical keys. A legacy label in columns 10 to 30 is replaced in
  place by its canonical label; so is a legacy label in columns 1 to 9 that stands in the
  column of its canonical label. A legacy label elsewhere in columns 1 to 9 gives way to
  the canonical header of its column.
\<close>

theorem ensure_headers_schema:
  "map (snd (ensure_headers ws)) HEADER_DEFAULTS = map Some [1, 2, 3, 4, 5, 6, 7, 8, 9] \<and>
   map (\<lambda>c. cells (fst (ensure_headers ws)) (1, c)) [1, 2, 3, 4, 5, 6, 7, 8, 9]
     = map (\<lambda>h. Some (StrV h)) HEADER_DEFAULTS \<and>
   ((\<forall>c\<in>{1..30}. blank_cell (cells ws (1, c))) \<longrightarrow>
      (\<forall>r c. \<not> (r = 1 \<and> 1 \<le> c \<and> c \<le> 9) \<longrightarrow>
         cells (fst (ensure_headers ws)) (r, c) = cells ws (r, c)) \<and>
      dom (snd (ensure_headers ws)) = set HEADER_DEFAULTS) \<and>
   (\<forall>c l t. 10 \<le> c \<and> c \<le> 30 \<and> cells ws (1, c) = Some (StrV l) \<and> legacy_header_map l = Some t \<longrightarrow>
      cells (fst (ensure_headers ws)) (1, c) = Some (StrV t)) \<and>
   (\<forall>c l t. 1 \<le> c \<and> c \<le> 9 \<and> cells ws (1, c) = Some (StrV l) \<and> legacy_header_map l = Some t \<and>
      HEADER_DEFAULTS ! (c - 1) = t \<longrightarrow>
      cells (fst (ensure_headers ws)) (1, c) = Some (StrV t))"
proof (intro conjI impI allI)
  show "map (snd (ensure_headers ws)) HEADER_DEFAULTS = map Some [1, 2, 3, 4, 5, 6, 7, 8, 9]"
    by (rule ensure_headers_canonical)
  show "map (\<lambda>c. cells (fst (ensure_headers ws)) (1, c)) [1, 2, 3, 4, 5, 6, 7, 8, 9]
     = map (\<lambda>h. Some (StrV h)) HEADER_DEFAULTS"
    by (simp add: ensure_headers_cells HEADER_DEFAULTS_def)
next
  fix r c :: nat
  assume b: "\<forall>c\<in>{1..30}. blank_cell (cells ws (1, c))" and n: "\<not> (r = 1 \<and> 1 \<le> c \<and> c \<le> 9)"
  show "cells (fst (ensure_headers ws)) (r, c) = cells ws (r, c)"
  proof (cases "r = 1 \<and> 10 \<le> c \<and> c \<le> 30")
    case True
    then have "blank_cell (cells ws (r, c))" using b by auto
    then show ?thesis using True by (simp add: ensure_headers_cells norm_cell_blank)
  next
    case False
    then show ?thesis using n by (auto simp: ensure_headers_cells)
  qed
next
  assume "\<forall>c\<in>{1..30}. blank_cell (cells ws (1, c))"
  then show "dom (snd (ensure_headers ws)) = set HEADER_DEFAULTS"
    by (rule ensure_headers_blank_dom)
next
  fix c :: nat and l t
  assume "10 \<le> c \<and> c \<le> 30 \<and> cells ws (1, c) = Some (StrV l) \<and> legacy_header_map l = Some t"
  then show "cells (fst (ensure_headers ws)) (1, c) = Some (StrV t)"
    using legacy_truthy [of l t] by (auto simp: ensure_headers_cells norm_cell_def)
next
  fix c :: nat and l t
  assume "1 \<le> c \<and> c \<le> 9 \<and> cells ws (1, c) = Some (StrV l) \<and> legacy_header_map l = Some t \<and>
      HEADER_DEFAULTS ! (c - 1) = t"
  then show "cells (fst (ensure_headers ws)) (1, c) = Some (StrV t)"
    by (auto simp: ensure_headers_cells)
qed

lemma legacy_sheet_cells:
  "cells legacy_sheet_wide (1, 1) = Some (StrV ''Folder Name'')"
  "cells legacy_sheet_wide (1, 12) = Some (StrV ''Status'')"
  by (simp_all add: legacy_sheet_wide_def legacy_sheet_def set_cell_def empty_sheet_def)

theorem ensure_headers_schema_witness:
  "list_all (\<lambda>c. blank_cell (cells empty_sheet (1, c))) [1..<31] \<and>
   dom (snd (ensure_headers empty_sheet)) = set HEADER_DEFAULTS \<and>
   cells (fst (ensure_headers empty_sheet)) (2, 1) = None \<and>
   map (\<lambda>c. cells (fst (ensure_headers empty_sheet)) (1, c)) [1, 2, 3, 4, 5, 6, 7, 8, 9, 10]
     = map (\<lambda>h. Some (StrV h)) HEADER_DEFAULTS @ [None] \<and>
   cells legacy_sheet_wide (1, 12) = Some (StrV ''Status'') \<and>
   cells (fst (ensure_headers legacy_sheet_wide)) (1, 12) = Some (StrV ''Bid Status'') \<and>
   cells legacy_sheet_wide (1, 1) = Some (StrV ''Folder Name'') \<and>
   cells (fst (ensure_headers legacy_sheet_wide)) (1, 1) = Some (StrV ''Bid Folder'')"
proof -
  have b: "\<forall>c\<in>{1..30}. blank_cell (cells empty_sheet (1, c))"
    by (simp add: blank_cell_def empty_sheet_def)
  have b': "list_all (\<lambda>c. blank_cell (cells empty_sheet (1, c))) [1..<31]"
    by (simp add: blank_cell_def empty_sheet_def list_all_iff)
  note e = ensure_headers_schema [of empty_sheet]
  note l = ensure_headers_schema [of legacy_sheet_wide]
  have e2: "map (\<lambda>c. cells (fst (ensure_headers empty_sheet)) (1, c)) [1, 2, 3, 4, 5, 6, 7, 8, 9]
     = map (\<lambda>h. Some (StrV h)) HEADER_DEFAULTS"
    using e by blast
  have e3: "(\<forall>r c. \<not> (r = 1 \<and> 1 \<le> c \<and> c \<le> 9) \<longrightarrow>
         cells (fst (ensure_headers empty_sheet)) (r, c) = cells empty_sheet (r, c)) \<and>
      dom (snd (ensure_headers empty_sheet)) = set HEADER_DEFAULTS"
    using e b by blast
  then have e4: "cells (fst (ensure_headers empty_sheet)) (2, 1) = None"
     "cells (fst (ensure_headers empty_sheet)) (1, 10) = None"
    by (simp_all add: empty_sheet_def)
  have l4: "cells (fst (ensure_headers legacy_sheet_wide)) (1, 12) = Some (StrV ''Bid Status'')"
    using l [THEN conjunct2, THEN conjunct2, THEN conjunct2, THEN conjunct1, rule_format,
        of 12 "''Status''" "''Bid Status''"] legacy_sheet_cells
    by (simp add: legacy_header_map_def)
  have l5: "cells (fst (ensure_headers legacy_sheet_wide)) (1, 1) = Some (StrV ''Bid Folder'')"
    using l [THEN conjunct2, THEN conjunct2, THEN conjunct2, THEN conjunct2, rule_format,
        of 1 "''Folder Name''" "''Bid Folder''"] legacy_sheet_cells
    by (simp add: legacy_header_map_def HEADER_DEFAULTS_def)
  have e5: "map (\<lambda>c. cells (fst (ensure_headers empty_sheet)) (1, c)) [1, 2, 3, 4, 5, 6, 7, 8, 9, 10]
     = map (\<lambda>h. Some (StrV h)) HEADER_DEFAULTS @ [None]"
    using e2 e4(2) by simp
  from e3 have e6: "dom (snd (ensure_headers empty_sheet)) = set HEADER_DEFAULTS" by (rule conjunct2)
  show ?thesis
    by (intro conjI b' e6 e4(1) e5 l4 l5 legacy_sheet_cells)
qed

text \<open>The example of the specification: six legacy labels become the nine canonical headers.\<close>

lemma ensure_headers_legacy_example:
  "map (\<lambda>c. cells legacy_sheet (1, c)) [1, 2, 3, 4, 5, 6, 7, 8, 9] =
     [Some (StrV ''Folder Name''), Some (StrV ''Bid#''), Some (StrV ''Estimator''),
      Some (StrV ''Due Date''), Some (StrV ''GC/Owner''), Some (StrV ''Description''),
      None, None, None]"
  "map (\<lambda>c. cells (fst (ensure_headers legacy_sheet)) (1, c)) [1, 2, 3, 4, 5, 6, 7, 8, 9] =
     [Some (StrV ''Bid Folder''), Some (StrV ''Bid Number''), Some (StrV ''Estimator''),
      Some (StrV ''Bid Due Date''), Some (StrV ''Customer/GC''), Some (StrV ''Bid Name''),
      Some (StrV ''Proposal Date''), Some (StrV ''Proposal Amount''), Some (StrV ''Bid Status'')]"
  by (simp_all add: ensure_headers_cells HEADER_DEFAULTS_def legacy_sheet_def set_cell_def empty_sheet_def)

text \<open>
  The claim as worded fails for a legacy label that stands in another column of the
  first nine: \<open>Status\<close> in column 1 is a legacy label for \<open>Bid Status\<close>, and after the
  call column 1 holds \<open>Bid Folder\<close>.
\<close>

theorem ensure_headers_counterexample:
  "cells (set_cell empty_sheet 1 1 (StrV ''Status'')) (1, 1) = Some (StrV ''Status'') \<and>
   legacy_header_map ''Status'' = Some ''Bid Status'' \<and>
   cells (fst (ensure_headers (set_cell empty_sheet 1 1 (StrV ''Status'')))) (1, 1)
     = Some (StrV ''Bid Folder'')"
  by (simp add: ensure_headers_cells HEADER_DEFAULTS_def set_cell_def legacy_header_map_def)

end
